theory Spec2Isabelle
  imports Main "HOL-Library.Multiset" "HOL-Library.List_Lexorder" "HOL-Library.Char_ord"
begin

section \<open>Data model (types.ts)\<close>

text \<open>
  Identifiers, names and contents are JavaScript strings, modelled as \<open>string\<close>.
  An optional field (\<open>parentId?: string | null\<close>) is an \<open>option\<close>: \<open>None\<close>
  stands for both \<open>undefined\<close> and \<open>null\<close>, which the code under study never
  tells apart on this field.
\<close>

record Group =
  g_id :: string
  g_name :: string
  g_userId :: string
  g_workspaceId :: string
  g_parentId :: "string option"

record Note =
  n_id :: string
  n_name :: string
  n_content :: string
  n_userId :: string
  n_workspaceId :: string
  n_groupId :: "string option"
  n_isDeleted :: bool
  n_isEncrypted :: bool

record Todo =
  t_id :: string
  t_text :: string
  t_completed :: bool
  t_userId :: string
  t_workspaceId :: string
  t_noteId :: string
  t_lineNumber :: int
  t_isDeleted :: bool

record Pagination =
  pg_page :: int
  pg_limit :: int
  pg_total :: int
  pg_totalPages :: int

record Meta =
  pagination :: "Pagination option"
  count :: "int option"

text \<open>
  \<open>ApiResponse<T> = ApiSuccessResponse<T> | ApiError\<close>: the tag \<open>success\<close> is the
  constructor. \<open>isSuccessResponse\<close> tests the tag, \<open>getErrorMessage\<close> reads the
  message of an error.
\<close>

datatype 'a ApiResponse =
    ApiSuccess (resp_data: 'a) (resp_meta: "Meta option")
  | ApiError (err_code: string) (err_message: string)

fun isSuccessResponse :: "'a ApiResponse \<Rightarrow> bool" where
  "isSuccessResponse (ApiSuccess d m) = True"
| "isSuccessResponse (ApiError c m) = False"

fun getErrorMessage :: "'a ApiResponse \<Rightarrow> string" where
  "getErrorMessage (ApiError c m) = m"
| "getErrorMessage (ApiSuccess d m) = ''Unknown error occurred''"

text \<open>
  Query parameters (\<open>Record<string, any>\<close>) are an association list in insertion
  order; only the kinds of value the API classes put there are modelled.
\<close>

datatype qvalue = QNum int | QStr string | QBool bool

type_synonym query = "(string \<times> qvalue) list"

text \<open>
  The API classes reach the remote service only through their injected client. A call
  \<open>this.client.get<T>(path, queryParams)\<close> is a function from the query and the state of
  the world to a typed response and the next state; \<open>post\<close> and \<open>put\<close> take the
  request body instead. The path is fixed per API class, so it is part of the function.
\<close>

type_synonym ('s, 'a) getter = "query \<Rightarrow> 's \<Rightarrow> 'a ApiResponse \<times> 's"

text \<open>\<open>if (params.k !== undefined) queryParams.k = params.k\<close>\<close>

definition qparam :: "string \<Rightarrow> ('a \<Rightarrow> qvalue) \<Rightarrow> 'a option \<Rightarrow> query" where
  "qparam k mk v = (case v of None \<Rightarrow> [] | Some x \<Rightarrow> [(k, mk x)])"

text \<open>Truthiness of an optional string: \<open>undefined\<close>, \<open>null\<close> and \<open>""\<close> are falsy.\<close>

definition truthy :: "string option \<Rightarrow> bool" where
  "truthy v = (case v of None \<Rightarrow> False | Some s \<Rightarrow> s \<noteq> [])"

section \<open>Notes API\<close>

record ListNotesParams =
  ln_page :: "int option"
  ln_limit :: "int option"
  ln_workspaceId :: "string option"
  ln_groupId :: "string option"
  ln_isDeleted :: "bool option"
  ln_search :: "string option"
  ln_sort :: "string option"

definition listNotes :: "('s, Note list) getter \<Rightarrow> ListNotesParams \<Rightarrow> 's \<Rightarrow> Note list ApiResponse \<times> 's" where
  "listNotes get params =
     get (qparam ''page'' QNum (ln_page params) @
          qparam ''limit'' QNum (ln_limit params) @
          qparam ''workspaceId'' QStr (ln_workspaceId params) @
          qparam ''groupId'' QStr (ln_groupId params) @
          qparam ''isDeleted'' QBool (ln_isDeleted params) @
          qparam ''search'' QStr (ln_search params) @
          qparam ''sort'' QStr (ln_sort params))"

text \<open>
  \<open>getNoteById\<close>: one list call with \<open>limit: 100\<close>, then \<open>find\<close> by id;
  \<open>note || null\<close> is the \<open>option\<close> that \<open>find\<close> returns. A failed list call is
  returned as it is.
\<close>

definition getNoteById :: "('s, Note list) getter \<Rightarrow> string \<Rightarrow> string option \<Rightarrow> 's \<Rightarrow> Note option ApiResponse \<times> 's" where
  "getNoteById get noteId workspaceId s =
     (case listNotes get \<lparr>ln_page = None, ln_limit = Some 100, ln_workspaceId = workspaceId,
                            ln_groupId = None, ln_isDeleted = None, ln_search = None,
                            ln_sort = None\<rparr> s of
        (ApiError c m, s1) \<Rightarrow> (ApiError c m, s1)
      | (ApiSuccess d mt, s1) \<Rightarrow> (ApiSuccess (find (\<lambda>n. n_id n = noteId) d) None, s1))"

record UpdateNoteRequest =
  un_id :: string
  un_name :: "string option"
  un_content :: "string option"
  un_groupId :: "string option"

type_synonym ('s, 'b, 'a) sender = "'b \<Rightarrow> 's \<Rightarrow> 'a ApiResponse \<times> 's"

definition updateNote :: "('s, UpdateNoteRequest, Note) sender \<Rightarrow> UpdateNoteRequest \<Rightarrow> 's \<Rightarrow> Note ApiResponse \<times> 's" where
  "updateNote put noteData = put noteData"

text \<open>
  \<open>appendToNote\<close>: read the note through \<open>getNoteById\<close>; a failure and a \<open>null\<close>
  note are both returned as they are (the second is \<open>ApiSuccess None\<close>); otherwise the
  note is updated with \<open>currentNote.content + '\n\n' + additionalContent\<close>.
\<close>

definition newline :: char where
  "newline = CHR 0x0A"

definition appendToNote ::
  "('s, Note list) getter \<Rightarrow> ('s, UpdateNoteRequest, Note) sender \<Rightarrow> string \<Rightarrow> string \<Rightarrow> string option \<Rightarrow> 's
     \<Rightarrow> Note option ApiResponse \<times> 's" where
  "appendToNote get put noteId additionalContent workspaceId s =
     (case getNoteById get noteId workspaceId s of
        (ApiError c m, s1) \<Rightarrow> (ApiError c m, s1)
      | (ApiSuccess None mt, s1) \<Rightarrow> (ApiSuccess None mt, s1)
      | (ApiSuccess (Some currentNote) mt, s1) \<Rightarrow>
          (let updatedContent = n_content currentNote @ [newline, newline] @ additionalContent
           in case updateNote put \<lparr>un_id = noteId, un_name = None,
                                     un_content = Some updatedContent, un_groupId = None\<rparr> s1 of
                (ApiError c m, s2) \<Rightarrow> (ApiError c m, s2)
              | (ApiSuccess n mt2, s2) \<Rightarrow> (ApiSuccess (Some n) mt2, s2)))"

text \<open>
  The calendar API's sibling, \<open>appendToDailyNote\<close>: the daily note is read with
  \<open>getDailyNoteByDate\<close> or \<open>getDailyNote\<close>, and the separator is added only when
  the current content is truthy: \<open>content ? content + '\n\n' + new : new\<close>.
\<close>

record UpdateDailyNoteRequest =
  ud_content :: string
  ud_workspaceId :: "string option"
  ud_date :: "string option"

definition getDailyNote :: "('s, Note) getter \<Rightarrow> string option \<Rightarrow> 's \<Rightarrow> Note ApiResponse \<times> 's" where
  "getDailyNote get workspaceId = get (if truthy workspaceId then qparam ''workspaceId'' QStr workspaceId else [])"

definition getDailyNoteByDate :: "('s, Note) getter \<Rightarrow> string \<Rightarrow> string option \<Rightarrow> 's \<Rightarrow> Note ApiResponse \<times> 's" where
  "getDailyNoteByDate get date workspaceId =
     get ([(''date'', QStr date)] @ (if truthy workspaceId then qparam ''workspaceId'' QStr workspaceId else []))"

definition appendToDailyNote ::
  "('s, Note) getter \<Rightarrow> ('s, UpdateDailyNoteRequest, Note) sender \<Rightarrow> string \<Rightarrow> string option \<Rightarrow> string option \<Rightarrow> 's
     \<Rightarrow> Note ApiResponse \<times> 's" where
  "appendToDailyNote get put content workspaceId date s =
     (case (if truthy date then getDailyNoteByDate get (the date) workspaceId s
            else getDailyNote get workspaceId s) of
        (ApiError c m, s1) \<Rightarrow> (ApiError c m, s1)
      | (ApiSuccess currentNote mt, s1) \<Rightarrow>
          (let updatedContent =
                 (if n_content currentNote \<noteq> [] then n_content currentNote @ [newline, newline] @ content
                  else content)
           in put \<lparr>ud_content = updatedContent, ud_workspaceId = workspaceId, ud_date = date\<rparr> s1))"

text \<open>
  Test doubles for the notes client: a remote that serves a fixed list of notes, and a
  \<open>put\<close> that records the request it was sent in the state and answers with the note
  of that id carrying the new content.
\<close>

definition note0 :: Note where
  "note0 = \<lparr>n_id = ''n1'', n_name = ''Inbox'', n_content = [], n_userId = ''u'',
             n_workspaceId = ''w'', n_groupId = None, n_isDeleted = False, n_isEncrypted = False\<rparr>"

definition serve_notes :: "Note list \<Rightarrow> (UpdateNoteRequest list, Note list) getter" where
  "serve_notes ns q s = (ApiSuccess ns None, s)"

definition record_put :: "Note \<Rightarrow> (UpdateNoteRequest list, UpdateNoteRequest, Note) sender" where
  "record_put n r s =
     (ApiSuccess (n\<lparr>n_content := (case un_content r of None \<Rightarrow> n_content n | Some c \<Rightarrow> c)\<rparr>) None, s @ [r])"

definition serve_note :: "Note \<Rightarrow> (UpdateDailyNoteRequest list, Note) getter" where
  "serve_note n q s = (ApiSuccess n None, s)"

definition record_daily_put :: "Note \<Rightarrow> (UpdateDailyNoteRequest list, UpdateDailyNoteRequest, Note) sender" where
  "record_daily_put n r s = (ApiSuccess (n\<lparr>n_content := ud_content r\<rparr>) None, s @ [r])"

section \<open>Todos API\<close>

record ListTodosParams =
  lt_page :: "int option"
  lt_limit :: "int option"
  lt_workspaceId :: "string option"
  lt_noteId :: "string option"
  lt_completed :: "bool option"
  lt_isDeleted :: "bool option"
  lt_search :: "string option"
  lt_sort :: "string option"

definition listTodos :: "('s, Todo list) getter \<Rightarrow> ListTodosParams \<Rightarrow> 's \<Rightarrow> Todo list ApiResponse \<times> 's" where
  "listTodos get params =
     get (qparam ''page'' QNum (lt_page params) @
          qparam ''limit'' QNum (lt_limit params) @
          qparam ''workspaceId'' QStr (lt_workspaceId params) @
          qparam ''noteId'' QStr (lt_noteId params) @
          qparam ''completed'' QBool (lt_completed params) @
          qparam ''isDeleted'' QBool (lt_isDeleted params) @
          qparam ''search'' QStr (lt_search params) @
          qparam ''sort'' QStr (lt_sort params))"

definition getTodoById :: "('s, Todo list) getter \<Rightarrow> string \<Rightarrow> string option \<Rightarrow> 's \<Rightarrow> Todo option ApiResponse \<times> 's" where
  "getTodoById get todoId workspaceId s =
     (case listTodos get \<lparr>lt_page = None, lt_limit = Some 100, lt_workspaceId = workspaceId,
                            lt_noteId = None, lt_completed = None, lt_isDeleted = None,
                            lt_search = None, lt_sort = None\<rparr> s of
        (ApiError c m, s1) \<Rightarrow> (ApiError c m, s1)
      | (ApiSuccess d mt, s1) \<Rightarrow> (ApiSuccess (find (\<lambda>t. t_id t = todoId) d) None, s1))"

section \<open>Groups API (groups.ts)\<close>

record ListGroupsParams =
  lg_page :: "int option"
  lg_limit :: "int option"
  lg_workspaceId :: "string option"
  lg_parentId :: "string option"
  lg_search :: "string option"
  lg_sort :: "string option"

definition listGroups :: "('s, Group list) getter \<Rightarrow> ListGroupsParams \<Rightarrow> 's \<Rightarrow> Group list ApiResponse \<times> 's" where
  "listGroups get params =
     get (qparam ''page'' QNum (lg_page params) @
          qparam ''limit'' QNum (lg_limit params) @
          qparam ''workspaceId'' QStr (lg_workspaceId params) @
          qparam ''parentId'' QStr (lg_parentId params) @
          qparam ''search'' QStr (lg_search params) @
          qparam ''sort'' QStr (lg_sort params))"

definition getGroupById :: "('s, Group list) getter \<Rightarrow> string \<Rightarrow> string option \<Rightarrow> 's \<Rightarrow> Group option ApiResponse \<times> 's" where
  "getGroupById get groupId workspaceId s =
     (case listGroups get \<lparr>lg_page = None, lg_limit = Some 100, lg_workspaceId = workspaceId,
                             lg_parentId = None, lg_search = None, lg_sort = None\<rparr> s of
        (ApiError c m, s1) \<Rightarrow> (ApiError c m, s1)
      | (ApiSuccess d mt, s1) \<Rightarrow> (ApiSuccess (find (\<lambda>g. g_id g = groupId) d) None, s1))"

subsection \<open>The pagination loop\<close>

text \<open>
  \<open>getAllGroupsInWorkspace\<close> is a \<open>while (hasMore)\<close> loop over the pages, with the
  loop variables \<open>page\<close> and \<open>allGroups\<close>. Nothing bounds the number of rounds (a
  remote that always answers a full page keeps it running), so the loop is a partial
  function: \<open>None\<close> is "does not return". \<open>Inl msg\<close> is the thrown
  \<open>Error(getErrorMessage(response))\<close>, \<open>Inr\<close> the returned list.
  \<open>response.meta?.pagination\<close> is truthy when the metadata and its pagination block
  are both there.
\<close>

definition limit100 :: int where
  "limit100 = 100"

definition pagination_of :: "Meta option \<Rightarrow> Pagination option" where
  "pagination_of mt = (case mt of None \<Rightarrow> None | Some m \<Rightarrow> pagination m)"

partial_function (option) fetchGroupPages ::
  "('s, Group list) getter \<Rightarrow> string \<Rightarrow> nat \<Rightarrow> Group list \<Rightarrow> 's \<Rightarrow> ((string + Group list) \<times> 's) option" where
  "fetchGroupPages get workspaceId page allGroups s =
     (case listGroups get \<lparr>lg_page = Some (int page), lg_limit = Some limit100,
                             lg_workspaceId = Some workspaceId, lg_parentId = None,
                             lg_search = None, lg_sort = Some ''name:asc''\<rparr> s of
        (ApiError c m, s1) \<Rightarrow> Some (Inl (getErrorMessage (ApiError c m :: Group list ApiResponse)), s1)
      | (ApiSuccess d mt, s1) \<Rightarrow>
          (let allGroups' = allGroups @ d;
               hasMore = (case pagination_of mt of
                            Some pg \<Rightarrow> int page < pg_totalPages pg
                          | None \<Rightarrow> int (length d) = limit100)
           in if hasMore then fetchGroupPages get workspaceId (page + 1) allGroups' s1
              else Some (Inr allGroups', s1)))"

definition getAllGroupsInWorkspace ::
  "('s, Group list) getter \<Rightarrow> string \<Rightarrow> 's \<Rightarrow> ((string + Group list) \<times> 's) option" where
  "getAllGroupsInWorkspace get workspaceId s = fetchGroupPages get workspaceId 1 [] s"

text \<open>
  The continuation rule in the words of the specification, written out on the response:
  go on when a pagination block is present and \<open>page < totalPages\<close>, or when none is
  present (no metadata, or metadata without the block) and the page has exactly 100
  items.
\<close>

definition continues_spec :: "nat \<Rightarrow> Group list \<Rightarrow> Meta option \<Rightarrow> bool" where
  "continues_spec page d mt =
     (case mt of
        None \<Rightarrow> length d = 100
      | Some m \<Rightarrow>
          (case pagination m of
             None \<Rightarrow> length d = 100
           | Some pg \<Rightarrow> int page < pg_totalPages pg))"

text \<open>The query that the loop sends for a page.\<close>

definition page_query :: "string \<Rightarrow> nat \<Rightarrow> query" where
  "page_query workspaceId page =
     [(''page'', QNum (int page)), (''limit'', QNum 100), (''workspaceId'', QStr workspaceId),
      (''sort'', QStr ''name:asc'')]"

subsection \<open>Observing the calls\<close>

text \<open>
  To count the requests an operation issues, a client call is wrapped so that the state
  carries the list of queries sent so far.
\<close>

definition logged :: "('s, 'a) getter \<Rightarrow> ('s \<times> query list, 'a) getter" where
  "logged get q sl = (case get q (fst sl) of (r, s') \<Rightarrow> (r, (s', snd sl @ [q])))"

text \<open>
  A remote that holds the full result list \<open>items\<close> of a listing and serves it in
  pages: page \<open>p\<close> of size \<open>l\<close> is \<open>take l (drop ((p - 1) * l) items)\<close>;
  \<open>page\<close> defaults to 1 and \<open>limit\<close> to \<open>dl\<close>. With \<open>withMeta\<close> it adds the
  pagination block, \<open>totalPages\<close> being the number of pages rounded up.
\<close>

definition qnum :: "query \<Rightarrow> string \<Rightarrow> int option" where
  "qnum q k = (case map_of q k of Some (QNum n) \<Rightarrow> Some n | _ \<Rightarrow> None)"

definition qstr :: "query \<Rightarrow> string \<Rightarrow> string option" where
  "qstr q k = (case map_of q k of Some (QStr v) \<Rightarrow> Some v | _ \<Rightarrow> None)"

definition paged :: "nat \<Rightarrow> 'a list \<Rightarrow> bool \<Rightarrow> ('s, 'a list) getter" where
  "paged dl items withMeta q s =
     (let l = (case qnum q ''limit'' of Some n \<Rightarrow> nat n | None \<Rightarrow> dl);
          p = (case qnum q ''page'' of Some n \<Rightarrow> nat n | None \<Rightarrow> 1)
      in (ApiSuccess (take l (drop ((p - 1) * l) items))
            (if withMeta
             then Some \<lparr>pagination = Some \<lparr>pg_page = int p, pg_limit = int l,
                                            pg_total = int (length items),
                                            pg_totalPages = int ((length items + l - 1) div l)\<rparr>,
                        count = None\<rparr>
             else None), s))"

text \<open>
  A remote that answers page \<open>p\<close> with the \<open>p\<close>-th entry of a fixed script of
  pages, each a list of items with the \<open>totalPages\<close> of its pagination block (or no
  metadata), and with an empty page without metadata beyond the script.
\<close>

definition totalPagesMeta :: "int \<Rightarrow> Meta" where
  "totalPagesMeta n =
     \<lparr>pagination = Some \<lparr>pg_page = 0, pg_limit = 100, pg_total = 0, pg_totalPages = n\<rparr>, count = None\<rparr>"

definition scripted :: "('a list \<times> int option) list \<Rightarrow> ('s, 'a list) getter" where
  "scripted pages q s =
     (let p = (case qnum q ''page'' of Some n \<Rightarrow> nat n | None \<Rightarrow> 1)
      in if 1 \<le> p \<and> p \<le> length pages
         then (ApiSuccess (fst (pages ! (p - 1))) (map_option totalPagesMeta (snd (pages ! (p - 1)))), s)
         else (ApiSuccess [] None, s))"

text \<open>The metadata that the paging remote sends with page \<open>p\<close> of \<open>n\<close> items at page size 100.\<close>

definition paged_meta :: "nat \<Rightarrow> bool \<Rightarrow> nat \<Rightarrow> Meta option" where
  "paged_meta n wm p =
     (if wm then Some \<lparr>pagination = Some \<lparr>pg_page = int p, pg_limit = 100, pg_total = int n,
                                          pg_totalPages = int ((n + 99) div 100)\<rparr>,
                      count = None\<rparr>
      else None)"

subsection \<open>Creating a path of groups\<close>

record CreateGroupRequest =
  cg_name :: string
  cg_workspaceId :: "string option"
  cg_parentId :: "string option"

definition createGroup :: "('s, CreateGroupRequest, Group) sender \<Rightarrow> CreateGroupRequest \<Rightarrow> 's \<Rightarrow> Group ApiResponse \<times> 's" where
  "createGroup post groupData = post groupData"

text \<open>
  \<open>createGroupPath\<close>: the \<open>for\<close> loop over the names with the loop variables
  \<open>createdGroups\<close> and \<open>currentParentId\<close>; each \<open>return\<close> inside the loop ends
  the recursion with the failed response (same code and message).
\<close>

fun createGroupPath_loop ::
  "('s, Group list) getter \<Rightarrow> ('s, CreateGroupRequest, Group) sender \<Rightarrow> string option \<Rightarrow> string list
     \<Rightarrow> Group list \<Rightarrow> string option \<Rightarrow> 's \<Rightarrow> Group list ApiResponse \<times> 's" where
  "createGroupPath_loop get post workspaceId [] createdGroups currentParentId s =
     (ApiSuccess createdGroups None, s)"
| "createGroupPath_loop get post workspaceId (groupName # rest) createdGroups currentParentId s =
     (case listGroups get \<lparr>lg_page = None, lg_limit = None, lg_workspaceId = workspaceId,
                             lg_parentId = currentParentId, lg_search = None, lg_sort = None\<rparr> s of
        (ApiError c m, s1) \<Rightarrow> (ApiError c m, s1)
      | (ApiSuccess d mt, s1) \<Rightarrow>
          (case find (\<lambda>g. g_name g = groupName) d of
             Some existingGroup \<Rightarrow>
               createGroupPath_loop get post workspaceId rest (createdGroups @ [existingGroup])
                 (Some (g_id existingGroup)) s1
           | None \<Rightarrow>
               (case createGroup post \<lparr>cg_name = groupName, cg_workspaceId = workspaceId,
                                        cg_parentId = currentParentId\<rparr> s1 of
                  (ApiError c m, s2) \<Rightarrow> (ApiError c m, s2)
                | (ApiSuccess g mt2, s2) \<Rightarrow>
                    createGroupPath_loop get post workspaceId rest (createdGroups @ [g])
                      (Some (g_id g)) s2)))"

definition createGroupPath ::
  "('s, Group list) getter \<Rightarrow> ('s, CreateGroupRequest, Group) sender \<Rightarrow> string list \<Rightarrow> string option \<Rightarrow> 's
     \<Rightarrow> Group list ApiResponse \<times> 's" where
  "createGroupPath get post path workspaceId s =
     createGroupPath_loop get post workspaceId path [] None s"

text \<open>Sample entities for the concrete runs below.\<close>

definition group0 :: Group where
  "group0 = \<lparr>g_id = ''g0'', g_name = ''Zero'', g_userId = ''u'', g_workspaceId = ''w'', g_parentId = None\<rparr>"

definition group_late :: Group where
  "group_late = \<lparr>g_id = ''g-late'', g_name = ''Late'', g_userId = ''u'', g_workspaceId = ''w'', g_parentId = None\<rparr>"

definition note_late :: Note where
  "note_late = note0\<lparr>n_id := ''n-late''\<rparr>"

definition todo0 :: Todo where
  "todo0 = \<lparr>t_id = ''t0'', t_text = ''buy milk'', t_completed = False, t_userId = ''u'',
             t_workspaceId = ''w'', t_noteId = ''n1'', t_lineNumber = 1, t_isDeleted = False\<rparr>"

definition todo_late :: Todo where
  "todo_late = todo0\<lparr>t_id := ''t-late''\<rparr>"

subsection \<open>Observing list and create calls together\<close>

text \<open>
  \<open>createGroupPath\<close> talks to the remote through two calls. Both are wrapped so that
  the state carries the trace of the calls made, each with its outcome: \<open>None\<close> for a
  success, the code and message of the error otherwise.
\<close>

datatype Call = ListCall query | CreateCall CreateGroupRequest

type_synonym trace = "(Call \<times> (string \<times> string) option) list"

fun outcome :: "'a ApiResponse \<Rightarrow> (string \<times> string) option" where
  "outcome (ApiSuccess d mt) = None"
| "outcome (ApiError c m) = Some (c, m)"

definition traced_get :: "('s, 'a) getter \<Rightarrow> ('s \<times> trace, 'a) getter" where
  "traced_get get q st =
     (case get q (fst st) of (r, s') \<Rightarrow> (r, (s', snd st @ [(ListCall q, outcome r)])))"

definition traced_post :: "('s, CreateGroupRequest, 'a) sender \<Rightarrow> ('s \<times> trace, CreateGroupRequest, 'a) sender" where
  "traced_post post req st =
     (case post req (fst st) of (r, s') \<Rightarrow> (r, (s', snd st @ [(CreateCall req, outcome r)])))"

fun is_list_call :: "Call \<times> (string \<times> string) option \<Rightarrow> bool" where
  "is_list_call (ListCall q, out) = True"
| "is_list_call (CreateCall r, out) = False"

text \<open>The effect on the remote of a sequence of calls, made one after the other.\<close>

fun replay ::
  "('s, Group list) getter \<Rightarrow> ('s, CreateGroupRequest, Group) sender \<Rightarrow> Call list \<Rightarrow> 's \<Rightarrow> 's" where
  "replay get post [] s = s"
| "replay get post (ListCall q # cs) s = replay get post cs (snd (get q s))"
| "replay get post (CreateCall r # cs) s = replay get post cs (snd (post r s))"

text \<open>
  What a trace must look like for a given result: after an error, the last call is the
  one that failed, with that error, and every call before it succeeded; after a success
  every call succeeded.
\<close>

fun trace_fits :: "'a ApiResponse \<Rightarrow> trace \<Rightarrow> bool" where
  "trace_fits (ApiError c m) tr =
     (tr \<noteq> [] \<and> snd (last tr) = Some (c, m) \<and> list_all (\<lambda>e. snd e = None) (butlast tr))"
| "trace_fits (ApiSuccess d mt) tr = list_all (\<lambda>e. snd e = None) tr"

text \<open>The query of the lookup that \<open>createGroupPath\<close> makes for a workspace and a parent.\<close>

definition lookup_query :: "string option \<Rightarrow> string option \<Rightarrow> query" where
  "lookup_query workspaceId currentParentId =
     qparam ''workspaceId'' QStr workspaceId @ qparam ''parentId'' QStr currentParentId"

subsection \<open>An in-memory remote\<close>

text \<open>
  A stand-in for the remote group service, which is not part of the repository. Its state
  is the list of groups in creation order. A listing filters by the keys present in the
  query (\<open>workspaceId\<close>, \<open>parentId\<close>): an absent key does not filter, which is what
  \<open>getGroupById\<close> and \<open>getAllGroupsInWorkspace\<close> rely on when they list without
  \<open>parentId\<close> and expect groups of every level. The listing is complete and comes
  oldest first, or newest first when \<open>newestFirst\<close> is set. A create request appends a
  group with the next identifier (\<open>g1\<close>, \<open>g2\<close>, ...); a request without a workspace
  lands in the workspace \<open>default\<close>; an empty name is rejected.
\<close>

definition digit :: "nat \<Rightarrow> char" where
  "digit n = ''0123456789'' ! n"

fun dec :: "nat \<Rightarrow> string" where
  "dec n = (if n < 10 then [digit n] else dec (n div 10) @ [digit (n mod 10)])"

declare dec.simps [simp del]

definition matches :: "query \<Rightarrow> Group \<Rightarrow> bool" where
  "matches q g =
     ((case qstr q ''workspaceId'' of None \<Rightarrow> True | Some w \<Rightarrow> g_workspaceId g = w) \<and>
      (case qstr q ''parentId'' of None \<Rightarrow> True | Some p \<Rightarrow> g_parentId g = Some p))"

definition mem_get :: "bool \<Rightarrow> (Group list, Group list) getter" where
  "mem_get newestFirst q store =
     (ApiSuccess (filter (matches q) (if newestFirst then rev store else store)) None, store)"

definition mem_post :: "(Group list, CreateGroupRequest, Group) sender" where
  "mem_post req store =
     (if cg_name req = [] then (ApiError ''VALIDATION_ERROR'' ''Name is required'', store)
      else (let g = \<lparr>g_id = ''g'' @ dec (Suc (length store)), g_name = cg_name req, g_userId = ''u'',
                      g_workspaceId = (case cg_workspaceId req of None \<Rightarrow> ''default'' | Some w \<Rightarrow> w),
                      g_parentId = cg_parentId req\<rparr>
            in (ApiSuccess g None, store @ [g])))"

definition mkGroup :: "string \<Rightarrow> string \<Rightarrow> string option \<Rightarrow> Group" where
  "mkGroup i n p = \<lparr>g_id = i, g_name = n, g_userId = ''u'', g_workspaceId = ''w'', g_parentId = p\<rparr>"

subsection \<open>The path of a group\<close>

text \<open>
  \<open>new Map(allGroups.map((g) => [g.id, g]))\<close>: the entries are set in order, a later
  group replacing an earlier one with the same id.
\<close>

definition groupMap_of :: "Group list \<Rightarrow> (string \<rightharpoonup> Group)" where
  "groupMap_of allGroups = fold (\<lambda>g m. m(g_id g \<mapsto> g)) allGroups Map.empty"

text \<open>
  The \<open>while (currentGroup)\<close> loop of \<open>getGroupPath\<close>, with the loop variables
  \<open>currentGroup\<close> and \<open>path\<close>. The source has no other exit than
  \<open>currentGroup\<close> becoming \<open>undefined\<close>, so the loop is a partial function and
  \<open>None\<close> is "does not return".
\<close>

partial_function (option) getGroupPath_loop ::
  "(string \<rightharpoonup> Group) \<Rightarrow> Group option \<Rightarrow> string list \<Rightarrow> string list option" where
  "getGroupPath_loop groupMap currentGroup path =
     (case currentGroup of
        None \<Rightarrow> Some path
      | Some g \<Rightarrow>
          getGroupPath_loop groupMap
            (case g_parentId g of
               None \<Rightarrow> None
             | Some p \<Rightarrow> if p \<noteq> [] then groupMap p else None)
            (g_name g # path))"

text \<open>
  \<open>getGroupPath\<close>: fetch the snapshot with \<open>getAllGroupsInWorkspace\<close> (its error
  is rethrown, \<open>Inl\<close>), then walk upwards from \<open>groupId\<close>.
\<close>

definition getGroupPath ::
  "('s, Group list) getter \<Rightarrow> string \<Rightarrow> string \<Rightarrow> 's \<Rightarrow> ((string + string list) \<times> 's) option" where
  "getGroupPath get groupId workspaceId s =
     (case getAllGroupsInWorkspace get workspaceId s of
        None \<Rightarrow> None
      | Some (Inl e, s1) \<Rightarrow> Some (Inl e, s1)
      | Some (Inr allGroups, s1) \<Rightarrow>
          (let groupMap = groupMap_of allGroups
           in case getGroupPath_loop groupMap (groupMap groupId) [] of
                None \<Rightarrow> None
              | Some path \<Rightarrow> Some (Inr path, s1)))"

text \<open>
  The parent links of a snapshot, as pairs (parent id, child id): the child's
  \<open>parentId\<close> is truthy and names a group of the snapshot.
\<close>

definition parent_links :: "Group list \<Rightarrow> (string \<times> string) set" where
  "parent_links allGroups =
     {(p, c). \<exists>g \<in> set allGroups. g_id g = c \<and> truthy (g_parentId g) \<and> g_parentId g = Some p \<and>
                p \<in> g_id ` set allGroups}"

text \<open>A remote that answers every listing with the same groups, in one page.\<close>

definition serve_groups :: "Group list \<Rightarrow> ('s, Group list) getter" where
  "serve_groups gs q s = (ApiSuccess gs None, s)"

subsection \<open>The tree of groups\<close>

text \<open>
  \<open>buildGroupTree\<close> works on mutable node objects that are shared between
  \<open>groupMap\<close>, \<open>rootGroups\<close> and the \<open>children\<close> arrays. After the first pass
  every node in use is the value of \<open>groupMap\<close> at its own id (the second pass reaches
  nodes only through \<open>groupMap.get\<close>), so the store of node objects is the map itself
  and a reference to a node is its id: \<open>c_children\<close> and \<open>rootGroups\<close> are lists of
  ids. A \<open>TreeCell\<close> is a node object in the store; the \<open>GroupTreeNode\<close> datatype is
  the tree that the caller sees when it follows the references from the returned roots.
\<close>

record TreeCell =
  c_group :: Group
  c_children :: "string list"
  c_level :: nat
  c_path :: "string list"

datatype GroupTreeNode =
  GroupTreeNode (node_group: Group) (node_children: "GroupTreeNode list") (node_level: nat)
    (node_path: "string list")

text \<open>First pass: \<open>groupMap.set(group.id, {...group, children: [], level: 0, path: []})\<close>.\<close>

definition createNodes :: "Group list \<Rightarrow> (string \<rightharpoonup> TreeCell)" where
  "createNodes groups =
     fold (\<lambda>grp m. m(g_id grp \<mapsto> \<lparr>c_group = grp, c_children = [], c_level = 0, c_path = []\<rparr>))
       groups Map.empty"

text \<open>
  Second pass, one group: with a truthy \<open>parentId\<close> the node is pushed to the parent's
  children and gets its level and path from the parent as they are at that moment, when
  the parent is in the map, and nothing happens when it is not; without a truthy
  \<open>parentId\<close> the node is pushed to \<open>rootGroups\<close>. The state is the pair of
  \<open>groupMap\<close> and \<open>rootGroups\<close>.
\<close>

definition linkNode :: "Group \<Rightarrow> (string \<rightharpoonup> TreeCell) \<times> string list \<Rightarrow> (string \<rightharpoonup> TreeCell) \<times> string list" where
  "linkNode grp st =
     (let groupMap = fst st; rootGroups = snd st
      in if truthy (g_parentId grp)
         then (case groupMap (the (g_parentId grp)) of
                 None \<Rightarrow> (groupMap, rootGroups)
               | Some parent \<Rightarrow>
                   (let m1 = groupMap(the (g_parentId grp) \<mapsto>
                                parent\<lparr>c_children := c_children parent @ [g_id grp]\<rparr>)
                    in case m1 (g_id grp) of
                         None \<Rightarrow> (m1, rootGroups)
                       | Some node \<Rightarrow>
                           (m1(g_id grp \<mapsto>
                                 node\<lparr>c_level := c_level parent + 1,
                                      c_path := c_path parent @ [g_name (c_group parent)]\<rparr>),
                            rootGroups)))
         else (groupMap, rootGroups @ [g_id grp]))"

text \<open>
  \<open>a.name.localeCompare(b.name)\<close> compares the collation keys of the two names; the
  collation is a parameter, a function from names into a linear order. \<open>Array.sort\<close>
  is stable, as \<open>sort_key\<close> is.
\<close>

definition cell_name :: "(string \<rightharpoonup> TreeCell) \<Rightarrow> string \<Rightarrow> string" where
  "cell_name groupMap i = (case groupMap i of None \<Rightarrow> [] | Some c \<Rightarrow> g_name (c_group c))"

text \<open>
  \<open>sortChildren\<close> sorts an array of nodes and calls itself on the children of each.
  The function below does that and reads off the tree below the given nodes. The
  recursion of the source is bounded by nothing but the call stack: when a node is
  reachable from itself, it ends in a \<open>RangeError\<close>. The first argument is the depth
  still allowed, and \<open>None\<close> is that error.
\<close>

fun sortChildren ::
  "nat \<Rightarrow> (string \<Rightarrow> 'k::linorder) \<Rightarrow> (string \<rightharpoonup> TreeCell) \<Rightarrow> string list \<Rightarrow> GroupTreeNode list option" where
  "sortChildren 0 collate groupMap nodes = None"
| "sortChildren (Suc depth) collate groupMap nodes =
     those (map (\<lambda>i. case groupMap i of
                        None \<Rightarrow> None
                      | Some c \<Rightarrow>
                          (case sortChildren depth collate groupMap (c_children c) of
                             None \<Rightarrow> None
                           | Some ch \<Rightarrow> Some (GroupTreeNode (c_group c) ch (c_level c) (c_path c))))
                (sort_key (\<lambda>i. collate (cell_name groupMap i)) nodes))"

text \<open>
  \<open>buildGroupTree\<close>. A chain of more than \<open>length groups\<close> nested calls of
  \<open>sortChildren\<close> visits some node twice and so never ends in the source; that many
  calls are allowed (one more for the empty children of the deepest node).
\<close>

definition buildGroupTree :: "(string \<Rightarrow> 'k::linorder) \<Rightarrow> Group list \<Rightarrow> GroupTreeNode list option" where
  "buildGroupTree collate groups =
     (let st = fold linkNode groups (createNodes groups, [])
      in sortChildren (Suc (length groups)) collate (fst st) (snd st))"

text \<open>The tree without the computed \<open>level\<close> and \<open>path\<close>: who is whose child, in which order.\<close>

fun shape :: "GroupTreeNode \<Rightarrow> GroupTreeNode" where
  "shape (GroupTreeNode g ch l p) = GroupTreeNode g (map shape ch) 0 []"

text \<open>
  Siblings are the groups with the same effective parent: the truthy \<open>parentId\<close>, or
  none.
\<close>

definition sibling_key :: "Group \<Rightarrow> string option" where
  "sibling_key g = (if truthy (g_parentId g) then g_parentId g else None)"

text \<open>The plain code-unit order on names, for the concrete runs.\<close>

definition byCodeUnits :: "string \<Rightarrow> string" where
  "byCodeUnits s = s"

text \<open>
  What the second pass leaves in the store, read off the input: the children of \<open>i\<close>
  are the groups with a truthy \<open>parentId\<close> equal to \<open>i\<close>, the roots those without
  a truthy \<open>parentId\<close>, both in input order.
\<close>

definition kids :: "Group list \<Rightarrow> string \<Rightarrow> string list" where
  "kids groups i = map g_id (filter (\<lambda>g. truthy (g_parentId g) \<and> g_parentId g = Some i) groups)"

definition rootIds :: "Group list \<Rightarrow> string list" where
  "rootIds groups = map g_id (filter (\<lambda>g. \<not> truthy (g_parentId g)) groups)"

text \<open>
  The parent that the second pass uses for the group of id \<open>i\<close>, and chains of ids
  in which each element is followed by its parent, up to a root.
\<close>

definition parentOf :: "Group list \<Rightarrow> string \<Rightarrow> string option" where
  "parentOf groups i =
     (case find (\<lambda>g. g_id g = i) groups of
        None \<Rightarrow> None
      | Some g \<Rightarrow> if truthy (g_parentId g) then g_parentId g else None)"

fun upward_chain :: "(string \<Rightarrow> string option) \<Rightarrow> string list \<Rightarrow> bool" where
  "upward_chain par [] = True"
| "upward_chain par [a] = (par a = None)"
| "upward_chain par (a # b # r) = (par a = Some b \<and> upward_chain par (b # r))"

section \<open>The resource client (client.ts)\<close>

text \<open>
  \<open>request\<close> works on untyped values: the parsed response body is whatever JSON the
  remote sent, and \<open>return responseData as ApiResponse<T>\<close> hands it on as it is. So
  the result of \<open>request\<close> is a JSON value. An object is the list of its members in
  order; reading a property takes the last member of that name, and gives \<open>undefined\<close>
  (\<open>None\<close>) on anything that is not an object.
\<close>

datatype json =
    JNull
  | JBool bool
  | JNum int
  | JStr string
  | JArr "json list"
  | JObj "(string \<times> json) list"

fun truthy_json :: "json \<Rightarrow> bool" where
  "truthy_json JNull = False"
| "truthy_json (JBool b) = b"
| "truthy_json (JNum n) = (n \<noteq> 0)"
| "truthy_json (JStr s) = (s \<noteq> [])"
| "truthy_json (JArr xs) = True"
| "truthy_json (JObj kv) = True"

fun getProp :: "json \<Rightarrow> string \<Rightarrow> json option" where
  "getProp (JObj kv) k = map_of (rev kv) k"
| "getProp JNull k = None"
| "getProp (JBool b) k = None"
| "getProp (JNum n) k = None"
| "getProp (JStr s) k = None"
| "getProp (JArr xs) k = None"

record SidvyConfig =
  apiToken :: string
  apiUrl :: string
  defaultWorkspaceId :: "string option"
  debug :: bool

text \<open>
  A query parameter value: \<open>undefined\<close>, \<open>null\<close>, or a value that \<open>String\<close>
  renders. How \<open>String\<close> writes a number (digits, or an exponent for a large one) is
  the platform's; it is a parameter.
\<close>

datatype pvalue = PUndefined | PNull | PValue qvalue

fun String_of :: "(int \<Rightarrow> string) \<Rightarrow> qvalue \<Rightarrow> string" where
  "String_of render (QNum n) = render n"
| "String_of render (QStr s) = s"
| "String_of render (QBool b) = (if b then ''true'' else ''false'')"

record RequestInit =
  ri_method :: string
  ri_headers :: "(string \<times> string) list"
  ri_body :: "string option"

text \<open>
  What \<open>fetch\<close> can do: reject (the thrown value is an \<open>Error\<close> with a message, or
  something else), or resolve to a response. \<open>r_json\<close> is the parsed body, \<open>None\<close>
  when \<open>response.json()\<close> rejects (\<open>.catch(() => null)\<close> then gives \<open>null\<close>).
\<close>

record HttpResponse =
  r_ok :: bool
  r_status :: nat
  r_statusText :: string
  r_json :: "json option"

datatype FetchOutcome = Rejected "string option" | Resolved HttpResponse

text \<open>
  The platform around \<open>request\<close>: the \<open>URL\<close> constructor (\<open>None\<close> when it throws
  a \<open>TypeError\<close>), \<open>JSON.stringify\<close>, \<open>String\<close> on numbers, and \<open>fetch\<close>,
  which takes the URL with its search parameters and the request, and the state of the
  world.
\<close>

record 's Platform =
  newURL :: "string \<Rightarrow> string \<Rightarrow> string option"
  stringify :: "json \<Rightarrow> string"
  numberToString :: "int \<Rightarrow> string"
  fetch :: "string \<times> (string \<times> string) list \<Rightarrow> RequestInit \<Rightarrow> 's \<Rightarrow> FetchOutcome \<times> 's"

definition baseHeaders :: "SidvyConfig \<Rightarrow> (string \<times> string) list" where
  "baseHeaders config =
     [(''Content-Type'', ''application/json''), (''User-Agent'', ''Sidvy-MCP-Server/1.0.0'')] @
     (if apiToken config \<noteq> [] then [(''Authorization'', ''Bearer '' @ apiToken config)] else [])"

definition endsWithSlash :: "string \<Rightarrow> bool" where
  "endsWithSlash s = (s \<noteq> [] \<and> last s = CHR ''/'')"

definition startsWithSlash :: "string \<Rightarrow> bool" where
  "startsWithSlash s = (s \<noteq> [] \<and> hd s = CHR ''/'')"

text \<open>\<open>searchParams.append(key, String(params[key]))\<close> for the values that are neither \<open>undefined\<close> nor \<open>null\<close>.\<close>

fun searchParams :: "(int \<Rightarrow> string) \<Rightarrow> (string \<times> pvalue) list \<Rightarrow> (string \<times> string) list" where
  "searchParams render [] = []"
| "searchParams render ((k, PUndefined) # ps) = searchParams render ps"
| "searchParams render ((k, PNull) # ps) = searchParams render ps"
| "searchParams render ((k, PValue v) # ps) = (k, String_of render v) # searchParams render ps"

text \<open>The two objects that \<open>request\<close> builds itself.\<close>

definition errorResponse :: "string \<Rightarrow> string \<Rightarrow> json" where
  "errorResponse c m =
     JObj [(''success'', JBool False), (''error'', JObj [(''code'', JStr c), (''message'', JStr m)])]"

definition successResponse :: "json \<Rightarrow> json option \<Rightarrow> json" where
  "successResponse d mt =
     JObj ([(''success'', JBool True), (''data'', d)] @ (case mt of None \<Rightarrow> [] | Some m \<Rightarrow> [(''meta'', m)]))"

text \<open>
  \<open>request\<close>. \<open>Inl\<close> is an exception that leaves the function: only the \<open>URL\<close>
  constructor, which runs before the \<open>try\<close>, can throw one. The debug output is left
  out, it does not touch the result.
\<close>

definition request ::
  "'s Platform \<Rightarrow> SidvyConfig \<Rightarrow> string \<Rightarrow> string \<Rightarrow> json option \<Rightarrow> (string \<times> pvalue) list \<Rightarrow> 's
     \<Rightarrow> (string + json) \<times> 's" where
  "request platform config method url data params s =
     (let baseUrl = (if endsWithSlash (apiUrl config) then apiUrl config else apiUrl config @ ''/'');
          endpoint = (if startsWithSlash url then tl url else url)
      in case newURL platform endpoint baseUrl of
           None \<Rightarrow> (Inl ''TypeError'', s)
         | Some fullUrl \<Rightarrow>
             (let requestInit = \<lparr>ri_method = method, ri_headers = baseHeaders config,
                                  ri_body = (case data of
                                               None \<Rightarrow> None
                                             | Some d \<Rightarrow> if truthy_json d then Some (stringify platform d)
                                                         else None)\<rparr>
              in case fetch platform (fullUrl, searchParams (numberToString platform) params) requestInit s of
                   (Rejected err, s1) \<Rightarrow>
                     (Inr (errorResponse ''NETWORK_ERROR''
                             (case err of Some m \<Rightarrow> m | None \<Rightarrow> ''Network or server error occurred'')), s1)
                 | (Resolved response, s1) \<Rightarrow>
                     (let responseData = (case r_json response of None \<Rightarrow> JNull | Some j \<Rightarrow> j)
                      in if \<not> r_ok response
                         then (if truthy_json responseData then (Inr responseData, s1)
                               else (Inr (errorResponse ''HTTP_ERROR''
                                            (''HTTP '' @ dec (r_status response) @ '': '' @
                                             r_statusText response)), s1))
                         else (Inr (successResponse
                                      (case getProp responseData ''data'' of
                                         Some d \<Rightarrow> if truthy_json d then d
                                                   else if truthy_json responseData then responseData
                                                   else JObj []
                                       | None \<Rightarrow> if truthy_json responseData then responseData
                                                 else JObj [])
                                      (getProp responseData ''meta'')), s1))))"

text \<open>The two tagged variants, as \<open>isSuccessResponse\<close> and the readers of \<open>error\<close> see them.\<close>

definition taggedSuccess :: "json \<Rightarrow> bool" where
  "taggedSuccess r = (getProp r ''success'' = Some (JBool True) \<and> getProp r ''data'' \<noteq> None)"

definition taggedFailure :: "json \<Rightarrow> bool" where
  "taggedFailure r =
     (getProp r ''success'' = Some (JBool False) \<and>
      (case getProp r ''error'' of
         None \<Rightarrow> False
       | Some e \<Rightarrow> (case (getProp e ''code'', getProp e ''message'') of
                      (Some (JStr c), Some (JStr m)) \<Rightarrow> True
                    | _ \<Rightarrow> False)))"

text \<open>A platform for the concrete runs: every URL is accepted, and \<open>fetch\<close> gives a fixed outcome.\<close>

definition fixedPlatform :: "FetchOutcome \<Rightarrow> unit Platform" where
  "fixedPlatform out =
     \<lparr>newURL = (\<lambda>endpoint base. Some (base @ endpoint)),
      stringify = (\<lambda>j. ''{}''),
      numberToString = (\<lambda>n. if n < 0 then CHR ''-'' # dec (nat (- n)) else dec (nat n)),
      fetch = (\<lambda>u i s. (out, s))\<rparr>"

definition sampleConfig :: SidvyConfig where
  "sampleConfig = \<lparr>apiToken = ''t'', apiUrl = ''https://sidvy.com/api'', defaultWorkspaceId = None,
                    debug = False\<rparr>"

section \<open>Observed calls\<close>

lemma logged_apply:
  "logged get q (s, lg) = (fst (get q s), (snd (get q s), lg @ [q]))"
  by (simp add: logged_def split: prod.split)

lemma traced_get_apply:
  "traced_get get q (s, tr) =
     (fst (get q s), (snd (get q s), tr @ [(ListCall q, outcome (fst (get q s)))]))"
  by (simp add: traced_get_def split: prod.split)

lemma traced_post_apply:
  "traced_post post r (s, tr) =
     (fst (post r s), (snd (post r s), tr @ [(CreateCall r, outcome (fst (post r s)))]))"
  by (simp add: traced_post_def split: prod.split)

lemma listGroups_lookup:
  "listGroups get \<lparr>lg_page = None, lg_limit = None, lg_workspaceId = ws,
                    lg_parentId = cur, lg_search = None, lg_sort = None\<rparr> s =
     get (lookup_query ws cur) s"
  by (simp add: listGroups_def lookup_query_def qparam_def [of _ _ None])

lemma dec_small:
  "dec (Suc 0) = ''1''" "dec (Suc (Suc 0)) = ''2''" "dec (Suc (Suc (Suc 0))) = ''3''"
  by (simp_all add: dec.simps digit_def)

lemmas mem_defs =
  createGroupPath_def listGroups_lookup traced_get_apply traced_post_apply createGroup_def
  mem_get_def mem_post_def matches_def lookup_query_def qparam_def qstr_def mkGroup_def Let_def
  dec_small

lemma find_append:
  "find P (xs @ ys) = (case find P xs of Some x \<Rightarrow> Some x | None \<Rightarrow> find P ys)"
  by (induction xs) auto

section \<open>The tree of groups\<close>

lemmas tree_defs =
  buildGroupTree_def createNodes_def linkNode_def truthy_def mkGroup_def byCodeUnits_def
  cell_name_def Let_def

lemma buildGroupTree_sorts_siblings:
  "buildGroupTree byCodeUnits
     [mkGroup ''1'' ''B'' None, mkGroup ''2'' ''A'' None, mkGroup ''3'' ''C'' None] =
   Some [GroupTreeNode (mkGroup ''2'' ''A'' None) [] 0 [],
         GroupTreeNode (mkGroup ''1'' ''B'' None) [] 0 [],
         GroupTreeNode (mkGroup ''3'' ''C'' None) [] 0 []]"
  by (simp add: tree_defs)

text \<open>
  C1. The claim: a group whose parent is absent from the input is a root of the forest,
  and a child has its parent's depth plus one and its parent's ancestor names followed by
  the parent's name. The code does neither in general. A group whose \<open>parentId\<close>
  names no group of the input is pushed nowhere: the forest of the single orphan \<open>c\<close>
  is empty. And level and path are copied from the parent when the child is visited,
  before the parent's own are set if the parent comes later in the input: for
  \<open>Alpha\<close> in \<open>Beta\<close> in \<open>Gamma\<close>, listed in this order (the order by name in
  which \<open>getGroupTree\<close> fetches them), \<open>Alpha\<close> ends at level 1 with path
  \<open>[Beta]\<close> under \<open>Beta\<close>, itself at level 1 with path \<open>[Gamma]\<close>.
\<close>

theorem buildGroupTree_orphan_dropped_and_stale_level:
  "buildGroupTree byCodeUnits [mkGroup ''c'' ''C'' (Some ''gone'')] = Some []
   \<and> buildGroupTree byCodeUnits
       [mkGroup ''1'' ''Alpha'' (Some ''2''), mkGroup ''2'' ''Beta'' (Some ''3''),
        mkGroup ''3'' ''Gamma'' None] =
     Some [GroupTreeNode (mkGroup ''3'' ''Gamma'' None)
             [GroupTreeNode (mkGroup ''2'' ''Beta'' (Some ''3''))
                [GroupTreeNode (mkGroup ''1'' ''Alpha'' (Some ''2'')) [] 1 [''Beta'']]
                1 [''Gamma'']]
             0 []]"
  by (simp add: tree_defs)

subsection \<open>The store after the two passes\<close>

lemma createNodes_fold:
  "fold (\<lambda>grp m. m(g_id grp \<mapsto> \<lparr>c_group = grp, c_children = [], c_level = 0, c_path = []\<rparr>)) gs m0 i =
     (case find (\<lambda>g. g_id g = i) (rev gs) of
        Some g \<Rightarrow> Some \<lparr>c_group = g, c_children = [], c_level = 0, c_path = []\<rparr>
      | None \<Rightarrow> m0 i)"
  by (induction gs arbitrary: m0) (auto simp: find_append split: option.splits)

lemma createNodes_apply:
  "createNodes gs i =
     (case find (\<lambda>g. g_id g = i) (rev gs) of
        Some g \<Rightarrow> Some \<lparr>c_group = g, c_children = [], c_level = 0, c_path = []\<rparr>
      | None \<Rightarrow> None)"
  by (simp add: createNodes_def createNodes_fold)

lemma find_distinct_id:
  "distinct (map g_id xs) \<Longrightarrow> g \<in> set xs \<Longrightarrow> find (\<lambda>h. g_id h = g_id g) xs = Some g"
  by (induction xs) force+

lemma createNodes_distinct:
  assumes "distinct (map g_id gs)" "g \<in> set gs"
  shows "createNodes gs (g_id g) = Some \<lparr>c_group = g, c_children = [], c_level = 0, c_path = []\<rparr>"
proof -
  have "distinct (map g_id (rev gs))" using assms(1) by (simp add: rev_map [symmetric])
  moreover have "g \<in> set (rev gs)" using assms(2) by simp
  ultimately have "find (\<lambda>h. g_id h = g_id g) (rev gs) = Some g"
    by (rule find_distinct_id)
  then show ?thesis by (simp add: createNodes_apply)
qed

lemma createNodes_None:
  "i \<notin> g_id ` set gs \<Longrightarrow> createNodes gs i = None"
  by (auto simp: createNodes_apply find_None_iff split: option.splits)

text \<open>One step of the second pass: groups stay, children and roots grow at the end.\<close>

lemma linkNode_step:
  assumes "linkNode g (m, rs) = (m', rs')"
  shows "rs' = rs @ (if truthy (g_parentId g) then [] else [g_id g])"
    and "m i = None \<Longrightarrow> m' i = None"
    and "m i = Some c0 \<Longrightarrow>
           \<exists>c. m' i = Some c \<and> c_group c = c_group c0 \<and>
               c_children c = c_children c0 @
                 (if truthy (g_parentId g) \<and> g_parentId g = Some i then [g_id g] else [])"
proof -
  show "rs' = rs @ (if truthy (g_parentId g) then [] else [g_id g])"
    using assms by (auto simp: linkNode_def Let_def split: option.splits if_splits)
  show "m i = None \<Longrightarrow> m' i = None"
    using assms by (auto simp: linkNode_def Let_def split: option.splits if_splits)
  show "m i = Some c0 \<Longrightarrow>
           \<exists>c. m' i = Some c \<and> c_group c = c_group c0 \<and>
               c_children c = c_children c0 @
                 (if truthy (g_parentId g) \<and> g_parentId g = Some i then [g_id g] else [])"
    using assms
    by (cases "g_parentId g")
       (auto simp: linkNode_def Let_def truthy_def split: option.splits if_splits)
qed

lemma linkNode_fold:
  "fold linkNode xs (m, rs) = (m', rs') \<Longrightarrow>
     rs' = rs @ rootIds xs \<and>
     (\<forall>i. m i = None \<longrightarrow> m' i = None) \<and>
     (\<forall>i c0. m i = Some c0 \<longrightarrow>
        (\<exists>c. m' i = Some c \<and> c_group c = c_group c0 \<and> c_children c = c_children c0 @ kids xs i))"
proof (induction xs arbitrary: m rs)
  case Nil
  then show ?case by (simp add: rootIds_def kids_def)
next
  case (Cons g xs)
  obtain m1 rs1 where st: "linkNode g (m, rs) = (m1, rs1)"
    by (cases "linkNode g (m, rs)")
  with Cons.prems have rest: "fold linkNode xs (m1, rs1) = (m', rs')" by simp
  note IH = Cons.IH [OF rest]
  note S = linkNode_step [OF st]
  have "rs' = rs @ rootIds (g # xs)"
    using IH S(1) by (simp add: rootIds_def)
  moreover have "m' i = None" if "m i = None" for i
    using IH S(2) [OF that] by simp
  moreover have "\<exists>c. m' i = Some c \<and> c_group c = c_group c0 \<and> c_children c = c_children c0 @ kids (g # xs) i"
    if "m i = Some c0" for i c0
  proof -
    from S(3) [OF that] obtain c1 where c1: "m1 i = Some c1" "c_group c1 = c_group c0"
      "c_children c1 = c_children c0 @ (if truthy (g_parentId g) \<and> g_parentId g = Some i then [g_id g] else [])"
      by blast
    from IH c1(1) obtain c where "m' i = Some c" "c_group c = c_group c1"
      "c_children c = c_children c1 @ kids xs i"
      by blast
    with c1 show ?thesis by (auto simp: kids_def)
  qed
  ultimately show ?case by blast
qed

text \<open>The store and the roots that \<open>buildGroupTree\<close> hands to \<open>sortChildren\<close>.\<close>

lemma linked_store:
  assumes "distinct (map g_id gs)"
    and "fold linkNode gs (createNodes gs, []) = (m, rs)"
  shows "rs = rootIds gs"
    and "i \<notin> g_id ` set gs \<Longrightarrow> m i = None"
    and "g \<in> set gs \<Longrightarrow> \<exists>c. m (g_id g) = Some c \<and> c_group c = g \<and> c_children c = kids gs (g_id g)"
proof -
  note F = linkNode_fold [OF assms(2)]
  show "rs = rootIds gs" using F by simp
  show "i \<notin> g_id ` set gs \<Longrightarrow> m i = None"
    using F createNodes_None by blast
  show "g \<in> set gs \<Longrightarrow> \<exists>c. m (g_id g) = Some c \<and> c_group c = g \<and> c_children c = kids gs (g_id g)"
    using F createNodes_distinct [OF assms(1)] by fastforce
qed

subsection \<open>Reading the tree off two stores\<close>

lemma those_map_shape:
  "(\<And>x. x \<in> set xs \<Longrightarrow> map_option shape (F x) = map_option shape (F' x)) \<Longrightarrow>
     map_option (map shape) (those (map F xs)) = map_option (map shape) (those (map F' xs))"
proof (induction xs)
  case Nil
  then show ?case by simp
next
  case (Cons x xs)
  have hd: "map_option shape (F x) = map_option shape (F' x)"
    using Cons.prems by simp
  have tl: "map_option (map shape) (those (map F xs)) = map_option (map shape) (those (map F' xs))"
    using Cons by simp
  show ?case
    using hd tl by (cases "F x"; cases "F' x"; cases "those (map F xs)"; cases "those (map F' xs)") auto
qed

lemma those_map_Some:
  "(\<And>x. x \<in> set xs \<Longrightarrow> F x \<noteq> None) \<Longrightarrow> those (map F xs) \<noteq> None"
  by (induction xs) (auto split: option.splits)

lemma sortChildren_shape_cong:
  assumes grp: "\<And>i. map_option c_group (m i) = map_option c_group (m' i)"
    and ch: "\<And>i c c'. m i = Some c \<Longrightarrow> m' i = Some c' \<Longrightarrow>
               mset (c_children c) = mset (c_children c')"
    and inj: "\<And>i c. m i = Some c \<Longrightarrow> inj_on (\<lambda>i. collate (cell_name m i)) (set (c_children c))"
  shows "mset ns = mset ns' \<Longrightarrow> inj_on (\<lambda>i. collate (cell_name m i)) (set ns) \<Longrightarrow>
           map_option (map shape) (sortChildren d collate m ns) =
           map_option (map shape) (sortChildren d collate m' ns')"
proof (induction d arbitrary: ns ns')
  case 0
  then show ?case by simp
next
  case (Suc d)
  let ?f = "\<lambda>i. collate (cell_name m i)"
  have names: "cell_name m' i = cell_name m i" for i
    using grp [of i] by (cases "m i"; cases "m' i") (auto simp: cell_name_def)
  have same: "sort_key ?f ns = sort_key ?f ns'"
  proof (rule sort_key_inj_key_eq)
    show "mset ns = mset (sort_key ?f ns')" using Suc.prems(1) by simp
    show "inj_on ?f (set ns)" using Suc.prems(2) .
    show "sorted (map ?f (sort_key ?f ns'))" by simp
  qed
  have elem: "map_option shape
                (case m i of None \<Rightarrow> None
                 | Some c \<Rightarrow> (case sortChildren d collate m (c_children c) of None \<Rightarrow> None
                     | Some ch \<Rightarrow> Some (GroupTreeNode (c_group c) ch (c_level c) (c_path c)))) =
              map_option shape
                (case m' i of None \<Rightarrow> None
                 | Some c \<Rightarrow> (case sortChildren d collate m' (c_children c) of None \<Rightarrow> None
                     | Some ch \<Rightarrow> Some (GroupTreeNode (c_group c) ch (c_level c) (c_path c))))"
    for i
  proof (cases "m i")
    case None
    with grp [of i] show ?thesis by (cases "m' i") auto
  next
    case (Some c)
    with grp [of i] obtain c' where c': "m' i = Some c'" "c_group c' = c_group c"
      by (cases "m' i") auto
    from ch [OF Some c'(1)] inj [OF Some]
    have "mset (c_children c) = mset (c_children c')"
      "inj_on (\<lambda>i. collate (cell_name m i)) (set (c_children c))"
      by simp_all
    from Suc.IH [OF this]
    have "map_option (map shape) (sortChildren d collate m (c_children c)) =
          map_option (map shape) (sortChildren d collate m' (c_children c'))" .
    with Some c' show ?thesis
      by (cases "sortChildren d collate m (c_children c)";
          cases "sortChildren d collate m' (c_children c')") auto
  qed
  show ?case
    by (simp add: names same those_map_shape [OF elem])
qed

subsection \<open>The recursion ends when the ids are distinct\<close>

lemma upward_chain_parents:
  "upward_chain par as \<Longrightarrow> distinct as \<Longrightarrow> i \<in> set as \<Longrightarrow>
     par i = None \<or> (\<exists>p. par i = Some p \<and> p \<in> set as \<and> p \<noteq> hd as)"
proof (induction par as rule: upward_chain.induct)
  case (1 par)
  then show ?case by simp
next
  case (2 par a)
  then show ?case by simp
next
  case (3 par a b r)
  show ?case
  proof (cases "i = a")
    case True
    with 3 show ?thesis by auto
  next
    case False
    with 3 have "par i = None \<or> (\<exists>p. par i = Some p \<and> p \<in> set (b # r) \<and> p \<noteq> hd (b # r))"
      by simp
    with 3(3) show ?thesis by auto
  qed
qed

lemma parentOf_distinct:
  "distinct (map g_id gs) \<Longrightarrow> g \<in> set gs \<Longrightarrow>
     parentOf gs (g_id g) = (if truthy (g_parentId g) then g_parentId g else None)"
  by (simp add: parentOf_def find_distinct_id)

lemma parentOf_kids:
  "distinct (map g_id gs) \<Longrightarrow> j \<in> set (kids gs i) \<Longrightarrow> parentOf gs j = Some i"
  by (auto simp: kids_def parentOf_distinct)

lemma parentOf_rootIds:
  "distinct (map g_id gs) \<Longrightarrow> j \<in> set (rootIds gs) \<Longrightarrow> parentOf gs j = None"
  by (auto simp: rootIds_def parentOf_distinct)

lemma sortChildren_returns:
  assumes dist: "distinct (map g_id gs)"
    and store: "\<And>g. g \<in> set gs \<Longrightarrow> \<exists>c. m (g_id g) = Some c \<and> c_children c = kids gs (g_id g)"
  shows "upward_chain (parentOf gs) as \<Longrightarrow> distinct as \<Longrightarrow> set as \<subseteq> g_id ` set gs \<Longrightarrow>
         set ns \<subseteq> g_id ` set gs \<Longrightarrow>
         (\<And>i. i \<in> set ns \<Longrightarrow> parentOf gs i = (if as = [] then None else Some (hd as))) \<Longrightarrow>
         card (g_id ` set gs) \<le> length as + d \<Longrightarrow>
         sortChildren (Suc d) collate m ns \<noteq> None"
proof (induction d arbitrary: as ns)
  case 0
  have fresh: "i \<notin> set as" if "i \<in> set ns" for i
    using upward_chain_parents [OF "0.prems"(1,2), of i] "0.prems"(5) [OF that]
    by (cases as) auto
  have "card (set as) = length as" using "0.prems"(2) by (rule distinct_card)
  with "0.prems"(3,6) have "set as = g_id ` set gs"
    by (intro card_seteq) auto
  with fresh "0.prems"(4) have "ns = []" by (cases ns) auto
  then show ?case by simp
next
  case (Suc d)
  have fresh: "i \<notin> set as" if "i \<in> set ns" for i
    using upward_chain_parents [OF Suc.prems(1,2), of i] Suc.prems(5) [OF that]
    by (cases as) auto
  have "(case m i of None \<Rightarrow> None
         | Some c \<Rightarrow> (case sortChildren (Suc d) collate m (c_children c) of None \<Rightarrow> None
             | Some ch \<Rightarrow> Some (GroupTreeNode (c_group c) ch (c_level c) (c_path c)))) \<noteq> None"
    if "i \<in> set (sort_key (\<lambda>i. collate (cell_name m i)) ns)" for i
  proof -
    from that have i: "i \<in> set ns" by simp
    with Suc.prems(4) obtain g where g: "g \<in> set gs" "i = g_id g" by auto
    from store [OF g(1)] g(2) obtain c where c: "m i = Some c" "c_children c = kids gs i"
      by auto
    have "sortChildren (Suc d) collate m (kids gs i) \<noteq> None"
    proof (rule Suc.IH [where as = "i # as"])
      show "upward_chain (parentOf gs) (i # as)"
        using Suc.prems(1) Suc.prems(5) [OF i] by (cases as) auto
      show "distinct (i # as)" using Suc.prems(2) fresh [OF i] by simp
      show "set (i # as) \<subseteq> g_id ` set gs" using Suc.prems(3,4) i by auto
      show "set (kids gs i) \<subseteq> g_id ` set gs" by (auto simp: kids_def)
      show "parentOf gs j = (if i # as = [] then None else Some (hd (i # as)))"
        if "j \<in> set (kids gs i)" for j
        using parentOf_kids [OF dist that] by simp
      show "card (g_id ` set gs) \<le> length (i # as) + d" using Suc.prems(6) by simp
    qed
    with c show ?thesis by auto
  qed
  then have "those (map (\<lambda>i. case m i of None \<Rightarrow> None
         | Some c \<Rightarrow> (case sortChildren (Suc d) collate m (c_children c) of None \<Rightarrow> None
             | Some ch \<Rightarrow> Some (GroupTreeNode (c_group c) ch (c_level c) (c_path c))))
          (sort_key (\<lambda>i. collate (cell_name m i)) ns)) \<noteq> None"
    by (rule those_map_Some)
  then show ?case by simp
qed

lemma buildGroupTree_returns:
  assumes "distinct (map g_id gs)"
  shows "buildGroupTree collate gs \<noteq> None"
proof -
  obtain m rs where st: "fold linkNode gs (createNodes gs, []) = (m, rs)"
    by (cases "fold linkNode gs (createNodes gs, [])")
  note L = linked_store [OF assms st]
  have "sortChildren (Suc (length gs)) collate m (rootIds gs) \<noteq> None"
  proof (rule sortChildren_returns [OF assms, where as = "[]"])
    show "\<exists>c. m (g_id g) = Some c \<and> c_children c = kids gs (g_id g)" if "g \<in> set gs" for g
      using L(3) [OF that] by blast
    show "upward_chain (parentOf gs) []" by simp
    show "distinct ([] :: string list)" by simp
    show "set [] \<subseteq> g_id ` set gs" by simp
    show "set (rootIds gs) \<subseteq> g_id ` set gs" by (auto simp: rootIds_def)
    show "parentOf gs i = (if [] = [] then None else Some (hd []))" if "i \<in> set (rootIds gs)" for i
      using parentOf_rootIds [OF assms that] by simp
    show "card (g_id ` set gs) \<le> length ([] :: string list) + length gs"
      using card_image_le [of "set gs" g_id] card_length [of gs] by simp
  qed
  with L(1) show ?thesis
    unfolding buildGroupTree_def Let_def st
    by (simp del: sortChildren.simps)
qed

subsection \<open>Reordering the input\<close>

lemma buildGroupTree_shape_reorder:
  assumes perm: "mset gs = mset gs'"
    and dist: "distinct (map g_id gs)"
    and names: "inj_on (\<lambda>g. (sibling_key g, collate (g_name g))) (set gs)"
  shows "map_option (map shape) (buildGroupTree collate gs) =
         map_option (map shape) (buildGroupTree collate gs')"
proof -
  obtain m rs where st: "fold linkNode gs (createNodes gs, []) = (m, rs)"
    by (cases "fold linkNode gs (createNodes gs, [])")
  obtain m' rs' where st': "fold linkNode gs' (createNodes gs', []) = (m', rs')"
    by (cases "fold linkNode gs' (createNodes gs', [])")
  have sets: "set gs' = set gs" using perm by (metis mset_eq_setD)
  have "mset (map g_id gs) = mset (map g_id gs')" using perm by simp
  then have dist': "distinct (map g_id gs')"
    using dist by (metis mset_eq_imp_distinct_iff)
  note L = linked_store [OF dist st]
  note L' = linked_store [OF dist' st']
  have len: "length gs' = length gs" using perm by (metis mset_eq_length)
  have kids_perm: "mset (kids gs i) = mset (kids gs' i)" for i
    using perm by (simp add: kids_def)
  have roots_perm: "mset (rootIds gs) = mset (rootIds gs')"
    using perm by (simp add: rootIds_def)
  have name_of: "cell_name m (g_id g) = g_name g" if "g \<in> set gs" for g
    using L(3) [OF that] by (auto simp: cell_name_def)
  have inj_sib: "inj_on (\<lambda>i. collate (cell_name m i)) (g_id ` {g \<in> set gs. sibling_key g = k})" for k
  proof (rule inj_onI)
    fix i j
    assume i: "i \<in> g_id ` {g \<in> set gs. sibling_key g = k}"
      and j: "j \<in> g_id ` {g \<in> set gs. sibling_key g = k}"
      and eq: "collate (cell_name m i) = collate (cell_name m j)"
    from i obtain g where g: "g \<in> set gs" "sibling_key g = k" "i = g_id g" by auto
    from j obtain h where h: "h \<in> set gs" "sibling_key h = k" "j = g_id h" by auto
    from eq g h have "collate (g_name g) = collate (g_name h)"
      by (simp add: name_of)
    with g h names have "g = h" by (auto dest: inj_onD)
    with g h show "i = j" by simp
  qed
  have kids_sub: "set (kids gs i) \<subseteq> g_id ` {g \<in> set gs. sibling_key g = Some i}" for i
    by (auto simp: kids_def sibling_key_def)
  have roots_sub: "set (rootIds gs) \<subseteq> g_id ` {g \<in> set gs. sibling_key g = None}"
    by (auto simp: rootIds_def sibling_key_def)
  have "map_option (map shape) (sortChildren (Suc (length gs)) collate m (rootIds gs)) =
        map_option (map shape) (sortChildren (Suc (length gs)) collate m' (rootIds gs'))"
  proof (rule sortChildren_shape_cong)
    show "map_option c_group (m i) = map_option c_group (m' i)" for i
    proof (cases "i \<in> g_id ` set gs")
      case True
      then obtain g where g: "g \<in> set gs" "i = g_id g" by auto
      with L(3) [of g] L'(3) [of g] sets show ?thesis by auto
    next
      case False
      with L(2) [of i] L'(2) [of i] sets show ?thesis by simp
    qed
    show "mset (c_children c) = mset (c_children c')" if "m i = Some c" "m' i = Some c'" for i c c'
    proof -
      from that(1) L(2) [of i] obtain g where g: "g \<in> set gs" "i = g_id g" by force
      with L(3) [of g] L'(3) [of g] sets that kids_perm [of i] show ?thesis by auto
    qed
    show "inj_on (\<lambda>i. collate (cell_name m i)) (set (c_children c))" if "m i = Some c" for i c
    proof -
      from that L(2) [of i] obtain g where g: "g \<in> set gs" "i = g_id g" by force
      with L(3) [of g] that have "c_children c = kids gs i" by auto
      with inj_sib [of "Some i"] kids_sub [of i] show ?thesis
        by (auto intro: inj_on_subset)
    qed
    show "mset (rootIds gs) = mset (rootIds gs')" by (rule roots_perm)
    show "inj_on (\<lambda>i. collate (cell_name m i)) (set (rootIds gs))"
      using inj_sib [of None] roots_sub by (rule inj_on_subset)
  qed
  then show ?thesis
    unfolding buildGroupTree_def Let_def st st' len L(1) L'(1)
    by (simp del: sortChildren.simps)
qed

text \<open>
  C5, as claimed, fails: two root groups with the same name keep their input order, so
  swapping them in the input swaps them in the forest.
\<close>

theorem buildGroupTree_reorder_differs:
  "mset [mkGroup ''1'' ''A'' None, mkGroup ''2'' ''A'' None] =
     mset [mkGroup ''2'' ''A'' None, mkGroup ''1'' ''A'' None]
   \<and> buildGroupTree byCodeUnits [mkGroup ''1'' ''A'' None, mkGroup ''2'' ''A'' None] =
       Some [GroupTreeNode (mkGroup ''1'' ''A'' None) [] 0 [],
             GroupTreeNode (mkGroup ''2'' ''A'' None) [] 0 []]
   \<and> buildGroupTree byCodeUnits [mkGroup ''2'' ''A'' None, mkGroup ''1'' ''A'' None] =
       Some [GroupTreeNode (mkGroup ''2'' ''A'' None) [] 0 [],
             GroupTreeNode (mkGroup ''1'' ''A'' None) [] 0 []]
   \<and> buildGroupTree byCodeUnits [mkGroup ''1'' ''A'' None, mkGroup ''2'' ''A'' None] \<noteq>
       buildGroupTree byCodeUnits [mkGroup ''2'' ''A'' None, mkGroup ''1'' ''A'' None]"
  by (simp add: tree_defs)

text \<open>
  C5, amended. When the groups have distinct ids and no two siblings have names with the
  same collation key, \<open>buildGroupTree\<close> returns a forest for the input and for every
  reordering of it, and the two forests have the same roots, the same children under
  every node and the same order among siblings. (The computed \<open>level\<close> and \<open>path\<close>
  of the nodes are not part of this statement.)
\<close>

theorem buildGroupTree_reorder:
  assumes "mset gs = mset gs'"
    and "distinct (map g_id gs)"
    and "inj_on (\<lambda>g. (sibling_key g, collate (g_name g))) (set gs)"
  shows "\<exists>t t'. buildGroupTree collate gs = Some t \<and> buildGroupTree collate gs' = Some t' \<and>
                map shape t = map shape t'"
proof -
  obtain t where t: "buildGroupTree collate gs = Some t"
    using buildGroupTree_returns [OF assms(2), of collate] by auto
  have "mset (map g_id gs) = mset (map g_id gs')" using assms(1) by simp
  then have "distinct (map g_id gs')"
    using assms(2) by (metis mset_eq_imp_distinct_iff)
  then obtain t' where t': "buildGroupTree collate gs' = Some t'"
    using buildGroupTree_returns [of gs' collate] by auto
  from buildGroupTree_shape_reorder [OF assms] t t' show ?thesis by simp
qed

theorem buildGroupTree_reorder_witness:
  "mset [mkGroup ''1'' ''B'' (Some ''3''), mkGroup ''2'' ''A'' (Some ''3''), mkGroup ''3'' ''A'' None] =
     mset [mkGroup ''3'' ''A'' None, mkGroup ''2'' ''A'' (Some ''3''), mkGroup ''1'' ''B'' (Some ''3'')]
   \<and> distinct (map g_id [mkGroup ''1'' ''B'' (Some ''3''), mkGroup ''2'' ''A'' (Some ''3''), mkGroup ''3'' ''A'' None])
   \<and> inj_on (\<lambda>g. (sibling_key g, byCodeUnits (g_name g)))
        (set [mkGroup ''1'' ''B'' (Some ''3''), mkGroup ''2'' ''A'' (Some ''3''), mkGroup ''3'' ''A'' None])
   \<and> (\<exists>t t'. buildGroupTree byCodeUnits
                 [mkGroup ''1'' ''B'' (Some ''3''), mkGroup ''2'' ''A'' (Some ''3''), mkGroup ''3'' ''A'' None] = Some t
            \<and> buildGroupTree byCodeUnits
                 [mkGroup ''3'' ''A'' None, mkGroup ''2'' ''A'' (Some ''3''), mkGroup ''1'' ''B'' (Some ''3'')] = Some t'
            \<and> map shape t = map shape t')"
proof -
  let ?gs = "[mkGroup ''1'' ''B'' (Some ''3''), mkGroup ''2'' ''A'' (Some ''3''), mkGroup ''3'' ''A'' None]"
  let ?gs' = "[mkGroup ''3'' ''A'' None, mkGroup ''2'' ''A'' (Some ''3''), mkGroup ''1'' ''B'' (Some ''3'')]"
  have perm: "mset ?gs = mset ?gs'" by (simp add: mkGroup_def)
  have dist: "distinct (map g_id ?gs)" by (simp add: mkGroup_def)
  have names: "inj_on (\<lambda>g. (sibling_key g, byCodeUnits (g_name g))) (set ?gs)"
    by (simp add: mkGroup_def sibling_key_def truthy_def byCodeUnits_def)
  from buildGroupTree_reorder [OF perm dist names] perm dist names show ?thesis
    by blast
qed

section \<open>Creating a path twice\<close>

text \<open>
  The second run against a remote whose listings are complete, pure and in creation
  order, and whose creates append: started from the same loop variables in the final
  state \<open>s1\<close> of a successful first run, it finds at every step the group that the
  first run found or created there.
\<close>

lemma createGroupPath_loop_rerun:
  assumes list: "\<And>q s. \<exists>mt. get q s = (ApiSuccess (filter (sel q) (groups_of s)) mt, s)"
    and create: "\<And>r s g mt s'. post r s = (ApiSuccess g mt, s') \<Longrightarrow>
                   groups_of s' = groups_of s @ [g] \<and> g_name g = cg_name r \<and>
                   sel (lookup_query (cg_workspaceId r) (cg_parentId r)) g"
  shows "createGroupPath_loop get post ws names created cur s = (ApiSuccess gs m, s1)
         \<Longrightarrow> (\<exists>C. groups_of s1 = groups_of s @ C) \<and>
             (\<forall>tr. \<exists>tr'. createGroupPath_loop (traced_get get) (traced_post post) ws names created cur (s1, tr) =
                            (ApiSuccess gs None, (s1, tr @ tr')) \<and> list_all is_list_call tr')"
proof (induction names arbitrary: created cur s)
  case Nil
  then show ?case by auto
next
  case (Cons n rest)
  let ?q = "lookup_query ws cur"
  let ?L = "filter (sel ?q) (groups_of s)"
  obtain mt where g0: "get ?q s = (ApiSuccess ?L mt, s)"
    using list by blast
  show ?case
  proof (cases "find (\<lambda>g. g_name g = n) ?L")
    case (Some g)
    with g0 Cons.prems
    have first: "createGroupPath_loop get post ws rest (created @ [g]) (Some (g_id g)) s = (ApiSuccess gs m, s1)"
      by (simp add: listGroups_lookup)
    from Cons.IH [OF first] obtain C where
      C: "groups_of s1 = groups_of s @ C"
      and again: "\<And>tr. \<exists>tr'. createGroupPath_loop (traced_get get) (traced_post post) ws rest
                    (created @ [g]) (Some (g_id g)) (s1, tr) = (ApiSuccess gs None, (s1, tr @ tr'))
                    \<and> list_all is_list_call tr'"
      by blast
    have found: "find (\<lambda>g. g_name g = n) (filter (sel ?q) (groups_of s1)) = Some g"
      using Some C by (simp add: find_append)
    have "\<exists>tr'. createGroupPath_loop (traced_get get) (traced_post post) ws (n # rest) created cur (s1, tr) =
                  (ApiSuccess gs None, (s1, tr @ tr')) \<and> list_all is_list_call tr'" for tr
    proof -
      obtain mt1 where g1: "get ?q s1 = (ApiSuccess (filter (sel ?q) (groups_of s1)) mt1, s1)"
        using list by blast
      from again [of "tr @ [(ListCall ?q, None)]"] obtain tr' where
        "createGroupPath_loop (traced_get get) (traced_post post) ws rest (created @ [g]) (Some (g_id g))
           (s1, tr @ [(ListCall ?q, None)]) = (ApiSuccess gs None, (s1, (tr @ [(ListCall ?q, None)]) @ tr'))"
        "list_all is_list_call tr'"
        by blast
      with g1 found show ?thesis
        by (intro exI [of _ "(ListCall ?q, None) # tr'"])
           (simp add: listGroups_lookup traced_get_apply)
    qed
    with C show ?thesis by blast
  next
    case None
    let ?r = "\<lparr>cg_name = n, cg_workspaceId = ws, cg_parentId = cur\<rparr>"
    from None g0 Cons.prems obtain g mt2 s2 where
      p: "post ?r s = (ApiSuccess g mt2, s2)"
      and first: "createGroupPath_loop get post ws rest (created @ [g]) (Some (g_id g)) s2 = (ApiSuccess gs m, s1)"
      by (auto simp: listGroups_lookup createGroup_def split: prod.splits ApiResponse.splits)
    from create [OF p] have
      s2: "groups_of s2 = groups_of s @ [g]" and nm: "g_name g = n" and vis: "sel ?q g"
      by simp_all
    from Cons.IH [OF first] obtain C where
      C: "groups_of s1 = groups_of s2 @ C"
      and again: "\<And>tr. \<exists>tr'. createGroupPath_loop (traced_get get) (traced_post post) ws rest
                    (created @ [g]) (Some (g_id g)) (s1, tr) = (ApiSuccess gs None, (s1, tr @ tr'))
                    \<and> list_all is_list_call tr'"
      by blast
    have found: "find (\<lambda>g. g_name g = n) (filter (sel ?q) (groups_of s1)) = Some g"
      using None C s2 nm vis by (simp add: find_append)
    have "\<exists>tr'. createGroupPath_loop (traced_get get) (traced_post post) ws (n # rest) created cur (s1, tr) =
                  (ApiSuccess gs None, (s1, tr @ tr')) \<and> list_all is_list_call tr'" for tr
    proof -
      obtain mt1 where g1: "get ?q s1 = (ApiSuccess (filter (sel ?q) (groups_of s1)) mt1, s1)"
        using list by blast
      from again [of "tr @ [(ListCall ?q, None)]"] obtain tr' where
        "createGroupPath_loop (traced_get get) (traced_post post) ws rest (created @ [g]) (Some (g_id g))
           (s1, tr @ [(ListCall ?q, None)]) = (ApiSuccess gs None, (s1, (tr @ [(ListCall ?q, None)]) @ tr'))"
        "list_all is_list_call tr'"
        by blast
      with g1 found show ?thesis
        by (intro exI [of _ "(ListCall ?q, None) # tr'"])
           (simp add: listGroups_lookup traced_get_apply)
    qed
    moreover have "\<exists>C'. groups_of s1 = groups_of s @ C'"
      using C s2 by simp
    ultimately show ?thesis by blast
  qed
qed

lemma mem_get_lists:
  "\<exists>mt. mem_get False q s = (ApiSuccess (filter (matches q) s) mt, s)"
  by (simp add: mem_get_def)

lemma mem_post_appends:
  "mem_post r s = (ApiSuccess g mt, s') \<Longrightarrow>
     s' = s @ [g] \<and> g_name g = cg_name r \<and> matches (lookup_query (cg_workspaceId r) (cg_parentId r)) g"
  by (auto simp: mem_post_def Let_def matches_def lookup_query_def qparam_def qstr_def
      split: if_splits option.splits)

text \<open>
  Where the second run does reuse. Let every lookup listing of the remote be complete,
  free of side effects and in creation order (\<open>filter (sel q) (groups_of s)\<close>, the
  state unchanged), and let every successful create append a group that carries the
  requested name and is listed by the lookup for its workspace and parent. Then, after a
  successful first run, a second run with the same names and workspace returns the same
  groups, leaves the remote unchanged and makes list calls only.
\<close>

lemma createGroupPath_rerun_reuses:
  assumes "\<And>q s. \<exists>mt. get q s = (ApiSuccess (filter (sel q) (groups_of s)) mt, s)"
    and "\<And>r s g mt s'. post r s = (ApiSuccess g mt, s') \<Longrightarrow>
           groups_of s' = groups_of s @ [g] \<and> g_name g = cg_name r \<and>
           sel (lookup_query (cg_workspaceId r) (cg_parentId r)) g"
    and "createGroupPath get post path ws s = (ApiSuccess gs m, s1)"
  shows "\<exists>tr. createGroupPath (traced_get get) (traced_post post) path ws (s1, []) =
                (ApiSuccess gs None, (s1, tr)) \<and> list_all is_list_call tr"
proof -
  have "(\<exists>C. groups_of s1 = groups_of s @ C) \<and>
        (\<forall>tr. \<exists>tr'. createGroupPath_loop (traced_get get) (traced_post post) ws path [] None (s1, tr) =
                       (ApiSuccess gs None, (s1, tr @ tr')) \<and> list_all is_list_call tr')"
  proof (rule createGroupPath_loop_rerun [where get = get and post = post and sel = sel
        and groups_of = groups_of and s = s and m = m])
    show "\<exists>mt. get q t = (ApiSuccess (filter (sel q) (groups_of t)) mt, t)" for q t
      by (rule assms(1))
    show "groups_of t' = groups_of t @ [g] \<and> g_name g = cg_name r \<and>
          sel (lookup_query (cg_workspaceId r) (cg_parentId r)) g"
      if "post r t = (ApiSuccess g mt, t')" for r t g mt t'
      using that by (rule assms(2))
    show "createGroupPath_loop get post ws path [] None s = (ApiSuccess gs m, s1)"
      using assms(3) by (simp add: createGroupPath_def)
  qed
  then obtain tr' where
    "createGroupPath_loop (traced_get get) (traced_post post) ws path [] None (s1, []) =
       (ApiSuccess gs None, (s1, [] @ tr'))" "list_all is_list_call tr'"
    by blast
  then show ?thesis
    unfolding createGroupPath_def by auto
qed

lemma createGroupPath_rerun_reuses_example:
  "createGroupPath (mem_get False) mem_post [''A'', ''B''] (Some ''w'') [] =
     (ApiSuccess [mkGroup ''g1'' ''A'' None, mkGroup ''g2'' ''B'' (Some ''g1'')] None,
      [mkGroup ''g1'' ''A'' None, mkGroup ''g2'' ''B'' (Some ''g1'')])
   \<and> (\<exists>tr. createGroupPath (traced_get (mem_get False)) (traced_post mem_post) [''A'', ''B''] (Some ''w'')
              ([mkGroup ''g1'' ''A'' None, mkGroup ''g2'' ''B'' (Some ''g1'')], []) =
            (ApiSuccess [mkGroup ''g1'' ''A'' None, mkGroup ''g2'' ''B'' (Some ''g1'')] None,
             ([mkGroup ''g1'' ''A'' None, mkGroup ''g2'' ''B'' (Some ''g1'')], tr))
            \<and> list_all is_list_call tr)"
proof -
  have run: "createGroupPath (mem_get False) mem_post [''A'', ''B''] (Some ''w'') [] =
     (ApiSuccess [mkGroup ''g1'' ''A'' None, mkGroup ''g2'' ''B'' (Some ''g1'')] None,
      [mkGroup ''g1'' ''A'' None, mkGroup ''g2'' ''B'' (Some ''g1'')])"
    by (simp add: mem_defs)
  have "\<exists>tr. createGroupPath (traced_get (mem_get False)) (traced_post mem_post) [''A'', ''B''] (Some ''w'')
              ([mkGroup ''g1'' ''A'' None, mkGroup ''g2'' ''B'' (Some ''g1'')], []) =
            (ApiSuccess [mkGroup ''g1'' ''A'' None, mkGroup ''g2'' ''B'' (Some ''g1'')] None,
             ([mkGroup ''g1'' ''A'' None, mkGroup ''g2'' ''B'' (Some ''g1'')], tr))
            \<and> list_all is_list_call tr"
  proof (rule createGroupPath_rerun_reuses [where get = "mem_get False" and sel = matches
        and groups_of = "\<lambda>s. s" and post = mem_post and s = "[]"])
    show "\<exists>mt. mem_get False q t = (ApiSuccess (filter (matches q) t) mt, t)" for q t
      by (rule mem_get_lists)
    show "t' = t @ [g] \<and> g_name g = cg_name r \<and>
          matches (lookup_query (cg_workspaceId r) (cg_parentId r)) g"
      if "mem_post r t = (ApiSuccess g mt, t')" for r t g mt t'
      using that by (rule mem_post_appends)
    show "createGroupPath (mem_get False) mem_post [''A'', ''B''] (Some ''w'') [] =
            (ApiSuccess [mkGroup ''g1'' ''A'' None, mkGroup ''g2'' ''B'' (Some ''g1'')] None,
             [mkGroup ''g1'' ''A'' None, mkGroup ''g2'' ''B'' (Some ''g1'')])"
      by (rule run)
  qed
  with run show ?thesis by blast
qed

text \<open>
  C2. The claim: a second run with the same names and workspace returns the same group
  ids as the first and creates nothing. The code does not ensure it, because its first
  lookup is not a lookup at root level (no \<open>parentId\<close> in the query, the slip of C3)
  and so can meet a group of the path's own deeper levels. Against the in-memory remote
  that lists newest first, the first run of \<open>createGroupPath(["A", "A"], "w")\<close> on
  the empty workspace creates \<open>g1\<close> and, inside it, \<open>g2\<close>. The second run lists the
  whole workspace at its first step, meets the nested \<open>g2\<close> first, finds no \<open>A\<close>
  inside \<open>g2\<close> and creates \<open>g3\<close>: other identifiers, one create call, three
  groups.
\<close>

theorem createGroupPath_second_run_creates:
  "createGroupPath (mem_get True) mem_post [''A'', ''A''] (Some ''w'') [] =
     (ApiSuccess [mkGroup ''g1'' ''A'' None, mkGroup ''g2'' ''A'' (Some ''g1'')] None,
      [mkGroup ''g1'' ''A'' None, mkGroup ''g2'' ''A'' (Some ''g1'')])
   \<and> createGroupPath (traced_get (mem_get True)) (traced_post mem_post) [''A'', ''A''] (Some ''w'')
       ([mkGroup ''g1'' ''A'' None, mkGroup ''g2'' ''A'' (Some ''g1'')], []) =
     (ApiSuccess [mkGroup ''g2'' ''A'' (Some ''g1''), mkGroup ''g3'' ''A'' (Some ''g2'')] None,
      ([mkGroup ''g1'' ''A'' None, mkGroup ''g2'' ''A'' (Some ''g1''), mkGroup ''g3'' ''A'' (Some ''g2'')],
       [(ListCall [(''workspaceId'', QStr ''w'')], None),
        (ListCall [(''workspaceId'', QStr ''w''), (''parentId'', QStr ''g2'')], None),
        (CreateCall \<lparr>cg_name = ''A'', cg_workspaceId = Some ''w'', cg_parentId = Some ''g2''\<rparr>, None)]))
   \<and> map g_id [mkGroup ''g2'' ''A'' (Some ''g1''), mkGroup ''g3'' ''A'' (Some ''g2'')] \<noteq>
       map g_id [mkGroup ''g1'' ''A'' None, mkGroup ''g2'' ''A'' (Some ''g1'')]"
  by (simp add: mem_defs)

section \<open>Creating a path: the lookup\<close>

text \<open>
  C3. The claim: at every step, the first included, the lookup is filtered by the
  workspace and by \<open>parentId = currentParent\<close>. At the first step \<open>currentParentId\<close>
  is \<open>undefined\<close> and \<open>listGroups\<close> leaves the key out, so the request carries the
  workspace only and is not restricted to root groups. In a workspace that holds a root
  group \<open>P\<close> and a group \<open>A\<close> inside \<open>P\<close>, \<open>createGroupPath(["A"])\<close> sends
  the single query \<open>workspaceId=w\<close>, finds the nested \<open>A\<close> and returns it; no
  root-level \<open>A\<close> is created.
\<close>

theorem createGroupPath_first_lookup_unfiltered:
  "createGroupPath (traced_get (mem_get False)) (traced_post mem_post) [''A''] (Some ''w'')
     ([mkGroup ''p'' ''P'' None, mkGroup ''a'' ''A'' (Some ''p'')], []) =
     (ApiSuccess [mkGroup ''a'' ''A'' (Some ''p'')] None,
      ([mkGroup ''p'' ''P'' None, mkGroup ''a'' ''A'' (Some ''p'')],
       [(ListCall [(''workspaceId'', QStr ''w'')], None)]))"
  by (simp add: mem_defs)

section \<open>The path of a group\<close>

lemma groupMap_of_fold:
  "fold (\<lambda>g m. m(g_id g \<mapsto> g)) gs m0 k = Some g \<Longrightarrow> (g \<in> set gs \<and> g_id g = k) \<or> m0 k = Some g"
  by (induction gs arbitrary: m0) (fastforce split: if_splits)+

lemma groupMap_of_Some:
  "groupMap_of gs k = Some g \<Longrightarrow> g \<in> set gs \<and> g_id g = k"
  using groupMap_of_fold [of gs Map.empty k g] by (simp add: groupMap_of_def)

lemma finite_parent_links: "finite (parent_links gs)"
proof (rule finite_subset)
  show "parent_links gs \<subseteq> (g_id ` set gs) \<times> (g_id ` set gs)"
    by (auto simp: parent_links_def)
  show "finite ((g_id ` set gs) \<times> (g_id ` set gs))" by simp
qed

lemma getGroupPath_loop_returns:
  assumes "acyclic (parent_links gs)"
  shows "groupMap_of gs c = Some g \<Longrightarrow> \<exists>res. getGroupPath_loop (groupMap_of gs) (Some g) path = Some res"
proof -
  have "wf (parent_links gs)"
    using finite_parent_links assms by (rule finite_acyclic_wf)
  then show "groupMap_of gs c = Some g \<Longrightarrow> \<exists>res. getGroupPath_loop (groupMap_of gs) (Some g) path = Some res"
  proof (induction c arbitrary: g path rule: wf_induct_rule)
    case (less c)
    from groupMap_of_Some [OF less.prems] have g: "g \<in> set gs" "g_id g = c" by simp_all
    let ?next = "case g_parentId g of None \<Rightarrow> None
                 | Some p \<Rightarrow> if p \<noteq> [] then groupMap_of gs p else None"
    have step: "getGroupPath_loop (groupMap_of gs) (Some g) path =
                getGroupPath_loop (groupMap_of gs) ?next (g_name g # path)"
      by (subst getGroupPath_loop.simps) simp
    show ?case
    proof (cases ?next)
      case None
      then show ?thesis
        unfolding step by (subst getGroupPath_loop.simps) simp
    next
      case (Some gp)
      then obtain p where p: "g_parentId g = Some p" "p \<noteq> []" "groupMap_of gs p = Some gp"
        by (auto split: option.splits if_splits)
      from groupMap_of_Some [OF p(3)] have "gp \<in> set gs" "g_id gp = p" by simp_all
      with g p have "(p, c) \<in> parent_links gs"
        by (auto simp: parent_links_def truthy_def)
      from less.IH [OF this p(3)] show ?thesis
        unfolding step Some by blast
    qed
  qed
qed

lemma getGroupPath_loop_stops:
  "\<exists>res. getGroupPath_loop m None path = Some res"
  by (subst getGroupPath_loop.simps) simp

text \<open>A snapshot with a cycle: \<open>a\<close> is inside \<open>b\<close> and \<open>b\<close> inside \<open>a\<close>.\<close>

lemma cycle_map:
  "groupMap_of [mkGroup ''a'' ''A'' (Some ''b''), mkGroup ''b'' ''B'' (Some ''a'')] =
     [''a'' \<mapsto> mkGroup ''a'' ''A'' (Some ''b''), ''b'' \<mapsto> mkGroup ''b'' ''B'' (Some ''a'')]"
  by (simp add: groupMap_of_def mkGroup_def)

lemma cycle_never_returns:
  assumes "getGroupPath_loop m cur path = Some res"
  shows "m = [''a'' \<mapsto> mkGroup ''a'' ''A'' (Some ''b''), ''b'' \<mapsto> mkGroup ''b'' ''B'' (Some ''a'')] \<longrightarrow>
         cur \<noteq> Some (mkGroup ''a'' ''A'' (Some ''b'')) \<and> cur \<noteq> Some (mkGroup ''b'' ''B'' (Some ''a''))"
proof (rule getGroupPath_loop.raw_induct
    [where P = "\<lambda>m cur path res.
       m = [''a'' \<mapsto> mkGroup ''a'' ''A'' (Some ''b''), ''b'' \<mapsto> mkGroup ''b'' ''B'' (Some ''a'')] \<longrightarrow>
       cur \<noteq> Some (mkGroup ''a'' ''A'' (Some ''b'')) \<and> cur \<noteq> Some (mkGroup ''b'' ''B'' (Some ''a''))",
     OF _ assms])
  fix loop :: "(string \<rightharpoonup> Group) \<Rightarrow> Group option \<Rightarrow> string list \<Rightarrow> string list option"
  fix m :: "string \<rightharpoonup> Group" and cur :: "Group option" and path res :: "string list"
  let ?cyc = "[''a'' \<mapsto> mkGroup ''a'' ''A'' (Some ''b''), ''b'' \<mapsto> mkGroup ''b'' ''B'' (Some ''a'')]"
  assume IH: "\<And>m cur path res. loop m cur path = Some res \<Longrightarrow>
                m = ?cyc \<longrightarrow>
                cur \<noteq> Some (mkGroup ''a'' ''A'' (Some ''b'')) \<and> cur \<noteq> Some (mkGroup ''b'' ''B'' (Some ''a''))"
    and eq: "(case cur of
                None \<Rightarrow> Some path
              | Some g \<Rightarrow>
                  loop m (case g_parentId g of None \<Rightarrow> None
                          | Some p \<Rightarrow> if p \<noteq> [] then m p else None)
                    (g_name g # path)) = Some res"
  show "m = ?cyc \<longrightarrow>
        cur \<noteq> Some (mkGroup ''a'' ''A'' (Some ''b'')) \<and> cur \<noteq> Some (mkGroup ''b'' ''B'' (Some ''a''))"
  proof (intro impI conjI notI)
    assume m: "m = ?cyc" and "cur = Some (mkGroup ''a'' ''A'' (Some ''b''))"
    with eq have "loop m (Some (mkGroup ''b'' ''B'' (Some ''a''))) (''A'' # path) = Some res"
      by (simp add: mkGroup_def)
    from IH [OF this] m show False by simp
  next
    assume m: "m = ?cyc" and "cur = Some (mkGroup ''b'' ''B'' (Some ''a''))"
    with eq have "loop m (Some (mkGroup ''a'' ''A'' (Some ''b''))) (''B'' # path) = Some res"
      by (simp add: mkGroup_def)
    from IH [OF this] m show False by simp
  qed
qed

lemma serve_groups_fetch:
  "length gs < 100 \<Longrightarrow> getAllGroupsInWorkspace (serve_groups gs) ws s = Some (Inr gs, s)"
  unfolding getAllGroupsInWorkspace_def
  by (subst fetchGroupPages.simps)
     (simp add: listGroups_def serve_groups_def pagination_of_def limit100_def)

text \<open>
  C4, as claimed, fails: the loop has no cycle guard. On the snapshot in which \<open>a\<close> and
  \<open>b\<close> are each other's parent, \<open>getGroupPath("a")\<close> does not return.
\<close>

theorem getGroupPath_cycle_diverges:
  "getGroupPath (serve_groups [mkGroup ''a'' ''A'' (Some ''b''), mkGroup ''b'' ''B'' (Some ''a'')])
     ''a'' ''w'' () = None"
proof -
  let ?m = "[''a'' \<mapsto> mkGroup ''a'' ''A'' (Some ''b''), ''b'' \<mapsto> mkGroup ''b'' ''B'' (Some ''a'')]"
  have "getGroupPath_loop ?m (Some (mkGroup ''a'' ''A'' (Some ''b''))) [] = None"
  proof (cases "getGroupPath_loop ?m (Some (mkGroup ''a'' ''A'' (Some ''b''))) []")
    case (Some res)
    from cycle_never_returns [OF this] show ?thesis by simp
  qed simp
  then show ?thesis
    by (simp add: getGroupPath_def serve_groups_fetch cycle_map)
qed

text \<open>
  C4, amended. When the snapshot that \<open>getAllGroupsInWorkspace\<close> returned has no cycle
  among its parent links, \<open>getGroupPath\<close> returns a path, for every \<open>groupId\<close>.
  Nothing is promised on a snapshot with a cycle.
\<close>

theorem getGroupPath_returns_if_acyclic:
  assumes "getAllGroupsInWorkspace get workspaceId s = Some (Inr allGroups, s1)"
    and "acyclic (parent_links allGroups)"
  shows "\<exists>path. getGroupPath get groupId workspaceId s = Some (Inr path, s1)"
proof (cases "groupMap_of allGroups groupId")
  case None
  with assms(1) getGroupPath_loop_stops [of "groupMap_of allGroups" "[]"] show ?thesis
    by (auto simp: getGroupPath_def)
next
  case (Some g)
  from getGroupPath_loop_returns [OF assms(2) Some, of "[]"] assms(1) Some show ?thesis
    by (auto simp: getGroupPath_def)
qed

theorem getGroupPath_returns_if_acyclic_witness:
  "acyclic (parent_links [mkGroup ''r'' ''Root'' None, mkGroup ''c'' ''Child'' (Some ''r'')])
   \<and> getGroupPath (serve_groups [mkGroup ''r'' ''Root'' None, mkGroup ''c'' ''Child'' (Some ''r'')])
        ''c'' ''w'' () = Some (Inr [''Root'', ''Child''], ())"
proof -
  let ?gs = "[mkGroup ''r'' ''Root'' None, mkGroup ''c'' ''Child'' (Some ''r'')]"
  have links: "parent_links ?gs = {(''r'', ''c'')}"
    by (auto simp: parent_links_def mkGroup_def truthy_def)
  have acyc: "acyclic (parent_links ?gs)"
    unfolding links
    by (rule acyclicI_order [where f = "\<lambda>x. if x = ''r'' then 1 else (0::nat)"]) simp
  have fetch: "getAllGroupsInWorkspace (serve_groups ?gs) ''w'' () = Some (Inr ?gs, ())"
    by (simp add: serve_groups_fetch)
  have run: "getGroupPath (serve_groups ?gs) ''c'' ''w'' () = Some (Inr [''Root'', ''Child''], ())"
    unfolding getGroupPath_def fetch
    by (simp add: groupMap_of_def mkGroup_def getGroupPath_loop.simps)
  from getGroupPath_returns_if_acyclic [OF fetch acyc, of "''c''"] acyc run show ?thesis
    by simp
qed

section \<open>The get-by-id helpers\<close>

lemma paged_first_page:
  "paged dl items wm ((''limit'', QNum 100) # qparam ''workspaceId'' QStr ws) s =
     (ApiSuccess (take 100 items)
        (if wm then Some \<lparr>pagination = Some \<lparr>pg_page = 1, pg_limit = 100,
                                             pg_total = int (length items),
                                             pg_totalPages = int ((length items + 99) div 100)\<rparr>,
                         count = None\<rparr>
         else None), s)"
  by (cases ws) (simp_all add: paged_def qnum_def qparam_def Let_def add.commute)

lemma getGroupById_paged:
  "getGroupById (logged (paged dl gs wm)) groupId ws (s, []) =
     (ApiSuccess (find (\<lambda>g. g_id g = groupId) (take 100 gs)) None,
      (s, [(''limit'', QNum 100) # qparam ''workspaceId'' QStr ws]))"
  by (simp add: getGroupById_def listGroups_def qparam_def [of "''page''"] qparam_def [of "''limit''"]
      qparam_def [of "''parentId''"] qparam_def [of "''search''"] qparam_def [of "''sort''"]
      logged_apply paged_first_page)

lemma getNoteById_paged:
  "getNoteById (logged (paged dl ns wm)) noteId ws (s, []) =
     (ApiSuccess (find (\<lambda>n. n_id n = noteId) (take 100 ns)) None,
      (s, [(''limit'', QNum 100) # qparam ''workspaceId'' QStr ws]))"
  by (simp add: getNoteById_def listNotes_def qparam_def [of "''page''"] qparam_def [of "''limit''"]
      qparam_def [of "''groupId''"] qparam_def [of "''isDeleted''"] qparam_def [of "''search''"]
      qparam_def [of "''sort''"] logged_apply paged_first_page)

lemma getTodoById_paged:
  "getTodoById (logged (paged dl ts wm)) todoId ws (s, []) =
     (ApiSuccess (find (\<lambda>t. t_id t = todoId) (take 100 ts)) None,
      (s, [(''limit'', QNum 100) # qparam ''workspaceId'' QStr ws]))"
  by (simp add: getTodoById_def listTodos_def qparam_def [of "''page''"] qparam_def [of "''limit''"]
      qparam_def [of "''noteId''"] qparam_def [of "''completed''"] qparam_def [of "''isDeleted''"]
      qparam_def [of "''search''"] qparam_def [of "''sort''"] logged_apply paged_first_page)

text \<open>
  C10. Each get-by-id helper sends one list request, with \<open>limit = 100\<close> (and the
  workspace when given), and answers \<open>ApiSuccess\<close> with the first entity of that id
  among the first 100 items of the listing, \<open>null\<close> (\<open>None\<close>) when there is none:
  an entity of that id that the listing holds only beyond its first 100 items is
  reported as \<open>ApiSuccess None\<close>.
\<close>

theorem get_by_id_first_page_only:
  "getGroupById (logged (paged dl gs wm)) groupId ws (s, []) =
     (ApiSuccess (find (\<lambda>g. g_id g = groupId) (take 100 gs)) None,
      (s, [(''limit'', QNum 100) # qparam ''workspaceId'' QStr ws]))
   \<and> getNoteById (logged (paged dl ns wm)) noteId ws (s, []) =
     (ApiSuccess (find (\<lambda>n. n_id n = noteId) (take 100 ns)) None,
      (s, [(''limit'', QNum 100) # qparam ''workspaceId'' QStr ws]))
   \<and> getTodoById (logged (paged dl ts wm)) todoId ws (s, []) =
     (ApiSuccess (find (\<lambda>t. t_id t = todoId) (take 100 ts)) None,
      (s, [(''limit'', QNum 100) # qparam ''workspaceId'' QStr ws]))
   \<and> ((\<forall>g \<in> set (take 100 gs). g_id g \<noteq> groupId)
        \<longrightarrow> fst (getGroupById (logged (paged dl gs wm)) groupId ws (s, [])) = ApiSuccess None None)
   \<and> ((\<forall>n \<in> set (take 100 ns). n_id n \<noteq> noteId)
        \<longrightarrow> fst (getNoteById (logged (paged dl ns wm)) noteId ws (s, [])) = ApiSuccess None None)
   \<and> ((\<forall>t \<in> set (take 100 ts). t_id t \<noteq> todoId)
        \<longrightarrow> fst (getTodoById (logged (paged dl ts wm)) todoId ws (s, [])) = ApiSuccess None None)"
  by (simp add: getGroupById_paged getNoteById_paged getTodoById_paged find_None_iff)

theorem get_by_id_first_page_only_witness:
  "group_late \<in> set (replicate 100 group0 @ [group_late])
   \<and> fst (getGroupById (logged (paged 20 (replicate 100 group0 @ [group_late]) True)) ''g-late''
            (Some ''w'') ((), [])) = ApiSuccess None None
   \<and> note_late \<in> set (replicate 100 note0 @ [note_late])
   \<and> fst (getNoteById (logged (paged 20 (replicate 100 note0 @ [note_late]) True)) ''n-late''
            (Some ''w'') ((), [])) = ApiSuccess None None
   \<and> todo_late \<in> set (replicate 100 todo0 @ [todo_late])
   \<and> fst (getTodoById (logged (paged 20 (replicate 100 todo0 @ [todo_late]) True)) ''t-late''
            (Some ''w'') ((), [])) = ApiSuccess None None
   \<and> getGroupById (logged (paged 20 [group0, group_late] False)) ''g-late'' None ((), []) =
        (ApiSuccess (Some group_late) None, ((), [[(''limit'', QNum 100)]]))"
  using get_by_id_first_page_only
          [of 20 "replicate 100 group0 @ [group_late]" True "''g-late''" "Some ''w''" "()"
              "replicate 100 note0 @ [note_late]" "''n-late''"
              "replicate 100 todo0 @ [todo_late]" "''t-late''"]
        get_by_id_first_page_only
          [of 20 "[group0, group_late]" False "''g-late''" None "()" "[]" "''x''" "[]" "''x''"]
  by (simp add: group0_def group_late_def note0_def note_late_def todo0_def todo_late_def qparam_def
      find_None_iff)

section \<open>The pagination loop\<close>

lemma listGroups_page_query:
  "listGroups get \<lparr>lg_page = Some (int page), lg_limit = Some limit100,
                    lg_workspaceId = Some ws, lg_parentId = None,
                    lg_search = None, lg_sort = Some ''name:asc''\<rparr> s = get (page_query ws page) s"
  by (simp add: listGroups_def qparam_def page_query_def limit100_def)

lemma fetchGroupPages_step:
  assumes "fst (get (page_query ws page) s) = ApiSuccess d mt"
  shows "fetchGroupPages (logged get) ws page acc (s, lg) =
           (if continues_spec page d mt
            then fetchGroupPages (logged get) ws (Suc page) (acc @ d)
                   (snd (get (page_query ws page) s), lg @ [page_query ws page])
            else Some (Inr (acc @ d), (snd (get (page_query ws page) s), lg @ [page_query ws page])))"
proof -
  have "fetchGroupPages (logged get) ws page acc (s, lg) =
          (case logged get (page_query ws page) (s, lg) of
             (ApiError c m, s1) \<Rightarrow> Some (Inl (getErrorMessage (ApiError c m :: Group list ApiResponse)), s1)
           | (ApiSuccess d mt, s1) \<Rightarrow>
               (let allGroups' = acc @ d;
                    hasMore = (case pagination_of mt of
                                 Some pg \<Rightarrow> int page < pg_totalPages pg
                               | None \<Rightarrow> int (length d) = limit100)
                in if hasMore then fetchGroupPages (logged get) ws (page + 1) allGroups' s1
                   else Some (Inr allGroups', s1)))"
    by (subst fetchGroupPages.simps) (simp only: listGroups_page_query)
  then show ?thesis
    using assms
    by (simp add: logged_apply continues_spec_def pagination_of_def limit100_def Let_def
        split: option.split)
qed

lemma fetchGroupPages_run:
  assumes ok: "\<And>p s. j \<le> p \<Longrightarrow> p \<le> k \<Longrightarrow> get (page_query ws p) s = (ApiSuccess (d p) (mt p), nxt p s)"
    and more: "\<And>p. j \<le> p \<Longrightarrow> p < k \<Longrightarrow> continues_spec p (d p) (mt p)"
    and stop: "\<not> continues_spec k (d k) (mt k)"
    and jk: "j \<le> k"
  shows "fetchGroupPages (logged get) ws j acc (s, lg) =
           Some (Inr (acc @ concat (map d [j..<Suc k])),
                 (fold nxt [j..<Suc k] s, lg @ map (page_query ws) [j..<Suc k]))"
  using ok more jk
proof (induction "k - j" arbitrary: j acc s lg)
  case 0
  then have "j = k" by simp
  with 0 stop show ?case
    by (simp add: fetchGroupPages_step [where d = "d k" and mt = "mt k"])
next
  case (Suc n)
  then have lt: "j < k" by simp
  have step: "get (page_query ws j) s = (ApiSuccess (d j) (mt j), nxt j s)"
    using Suc.prems(1) [of j s] lt by simp
  have cont: "continues_spec j (d j) (mt j)"
    using Suc.prems(2) [of j] lt by simp
  have "fetchGroupPages (logged get) ws (Suc j) (acc @ d j) (nxt j s, lg @ [page_query ws j]) =
          Some (Inr ((acc @ d j) @ concat (map d [Suc j..<Suc k])),
                (fold nxt [Suc j..<Suc k] (nxt j s),
                 (lg @ [page_query ws j]) @ map (page_query ws) [Suc j..<Suc k]))"
  proof (rule Suc.hyps(1))
    show "n = k - Suc j" using Suc.hyps(2) by simp
    show "\<And>p s. Suc j \<le> p \<Longrightarrow> p \<le> k \<Longrightarrow> get (page_query ws p) s = (ApiSuccess (d p) (mt p), nxt p s)"
      using Suc.prems(1) by simp
    show "\<And>p. Suc j \<le> p \<Longrightarrow> p < k \<Longrightarrow> continues_spec p (d p) (mt p)"
      using Suc.prems(2) by simp
    show "Suc j \<le> k" using lt by simp
  qed
  moreover have "[j..<Suc k] = j # [Suc j..<Suc k]"
    using lt by (simp add: upt_conv_Cons)
  ultimately show ?case
    using cont step
    by (simp add: fetchGroupPages_step [where get = get and d = "d j" and mt = "mt j"])
qed

text \<open>The pages of the paging remote.\<close>

lemma paged_page_query:
  "paged dl items wm (page_query ws p) s =
     (ApiSuccess (take 100 (drop ((p - 1) * 100) items)) (paged_meta (length items) wm p), s)"
  by (simp add: paged_def page_query_def qnum_def Let_def add.commute paged_meta_def)

lemma upt_1_4: "[1..<Suc 3] = [1, 2, 3]"
  by (simp add: upt_rec)

lemma paged_250:
  assumes "length (items :: Group list) = 250"
  shows "getAllGroupsInWorkspace (logged (paged dl items wm)) ws (s, []) =
           Some (Inr items, (s, [page_query ws 1, page_query ws 2, page_query ws 3]))"
proof -
  let ?d = "\<lambda>p. take 100 (drop ((p - 1) * 100) items)"
  have d3: "take 100 (drop 200 items) = drop 200 items"
    using assms by simp
  have "take 100 (drop 100 items) @ drop 100 (drop 100 items) = drop 100 items"
    by (rule append_take_drop_id)
  then have d2: "take 100 (drop 100 items) @ drop 200 items = drop 100 items"
    by simp
  have split: "take 100 items @ take 100 (drop 100 items) @ take 100 (drop 200 items) = items"
    by (simp only: d3 d2 append_take_drop_id)
  have "fetchGroupPages (logged (paged dl items wm)) ws 1 [] (s, []) =
          Some (Inr ([] @ concat (map ?d [1..<Suc 3])),
                (fold (\<lambda>p s. s) [1..<Suc 3] s, [] @ map (page_query ws) [1..<Suc 3]))"
  proof (rule fetchGroupPages_run [where mt = "paged_meta 250 wm"])
    show "\<And>p s. paged dl items wm (page_query ws p) s = (ApiSuccess (?d p) (paged_meta 250 wm p), s)"
      by (simp add: paged_page_query assms)
    show "\<And>p. 1 \<le> p \<Longrightarrow> p < 3 \<Longrightarrow> continues_spec p (?d p) (paged_meta 250 wm p)"
      using assms by (auto simp: continues_spec_def paged_meta_def)
    show "\<not> continues_spec 3 (?d 3) (paged_meta 250 wm 3)"
      using assms by (auto simp: continues_spec_def paged_meta_def)
    show "(1::nat) \<le> 3" by simp
  qed
  then show ?thesis
    unfolding getAllGroupsInWorkspace_def upt_1_4
    by (simp add: split)
qed

lemma paged_empty:
  "getAllGroupsInWorkspace (logged (paged dl ([] :: Group list) wm)) ws (s, []) =
     Some (Inr [], (s, [page_query ws 1]))"
proof -
  have "fetchGroupPages (logged (paged dl ([] :: Group list) wm)) ws 1 [] (s, []) =
          Some (Inr ([] @ concat (map (\<lambda>p. []) [1..<Suc 1])),
                (fold (\<lambda>p s. s) [1..<Suc 1] s, [] @ map (page_query ws) [1..<Suc 1]))"
  proof (rule fetchGroupPages_run [where mt = "paged_meta 0 wm"])
    show "\<And>p s. paged dl [] wm (page_query ws p) s = (ApiSuccess [] (paged_meta 0 wm p), s)"
      by (simp add: paged_page_query)
    show "\<And>p. 1 \<le> p \<Longrightarrow> p < 1 \<Longrightarrow> continues_spec p [] (paged_meta 0 wm p)"
      by simp
    show "\<not> continues_spec 1 [] (paged_meta 0 wm 1)"
      by (auto simp: continues_spec_def paged_meta_def)
    show "(1::nat) \<le> 1" by simp
  qed
  then show ?thesis
    unfolding getAllGroupsInWorkspace_def by simp
qed

lemma fetch_first_page_only:
  assumes "get (page_query ws 1) s = (ApiSuccess d mt, s1)"
    and "\<not> continues_spec 1 d mt"
  shows "getAllGroupsInWorkspace (logged get) ws (s, []) = Some (Inr d, (s1, [page_query ws 1]))"
  unfolding getAllGroupsInWorkspace_def
  using assms by (simp add: fetchGroupPages_step [where d = d and mt = mt])

lemma scripted_page_query:
  "scripted pages (page_query ws p) s =
     (if 1 \<le> p \<and> p \<le> length pages
      then (ApiSuccess (fst (pages ! (p - 1))) (map_option totalPagesMeta (snd (pages ! (p - 1)))), s)
      else (ApiSuccess [] None, s))"
  by (simp add: scripted_def page_query_def qnum_def Let_def)

lemma upt_1_3: "[1..<Suc 2] = [1, 2]"
  by (simp add: upt_rec)

lemma scripted_two_pages:
  "getAllGroupsInWorkspace (logged (scripted [(d1, Some 2), (d2, Some 2)])) ws (s, []) =
     Some (Inr (d1 @ d2), (s, [page_query ws 1, page_query ws 2]))"
proof -
  let ?d = "\<lambda>p. if p = 1 then d1 else d2"
  have "fetchGroupPages (logged (scripted [(d1, Some 2), (d2, Some 2)])) ws 1 [] (s, []) =
          Some (Inr ([] @ concat (map ?d [1..<Suc 2])),
                (fold (\<lambda>p s. s) [1..<Suc 2] s, [] @ map (page_query ws) [1..<Suc 2]))"
  proof (rule fetchGroupPages_run [where mt = "\<lambda>p. Some (totalPagesMeta 2)"])
    show "scripted [(d1, Some 2), (d2, Some 2)] (page_query ws p) t =
            (ApiSuccess (?d p) (Some (totalPagesMeta 2)), t)"
      if "1 \<le> p" "p \<le> 2" for p t
    proof -
      from that have "p = 1 \<or> p = 2" by arith
      then show ?thesis by (auto simp: scripted_page_query)
    qed
    show "\<And>p. 1 \<le> p \<Longrightarrow> p < 2 \<Longrightarrow> continues_spec p (?d p) (Some (totalPagesMeta 2))"
      by (simp add: continues_spec_def totalPagesMeta_def)
    show "\<not> continues_spec 2 (?d 2) (Some (totalPagesMeta 2))"
      by (simp add: continues_spec_def totalPagesMeta_def)
    show "(1::nat) \<le> 2" by simp
  qed
  then show ?thesis
    unfolding getAllGroupsInWorkspace_def upt_1_3 by simp
qed

text \<open>
  C6, as claimed, fails in its clause on the empty first page: when page 1 is empty and
  its metadata says \<open>totalPages = 2\<close>, the rule \<open>page < totalPages\<close> holds, the
  loop asks for page 2 and returns what that page holds.
\<close>

theorem getAllGroupsInWorkspace_empty_first_page_continues:
  "fst (scripted [([], Some 2), ([group0], Some 2)] (page_query ''w'' 1) ()) =
     ApiSuccess [] (Some (totalPagesMeta 2))
   \<and> getAllGroupsInWorkspace (logged (scripted [([], Some 2), ([group0], Some 2)])) ''w'' ((), []) =
       Some (Inr [group0], ((), [page_query ''w'' 1, page_query ''w'' 2]))"
  by (simp add: scripted_two_pages scripted_page_query)

text \<open>
  C6, amended. \<open>getAllGroupsInWorkspace\<close> starts at page 1 and goes on exactly while
  the continuation rule of the specification holds: if the remote answers pages
  \<open>1..k\<close> with data \<open>d p\<close> and metadata \<open>mt p\<close>, the rule holds after every page
  before \<open>k\<close> and fails after page \<open>k\<close>, then the loop returns the concatenation of
  the pages \<open>1..k\<close> and has sent exactly the queries for the pages \<open>1..k\<close>, in this
  order. An empty page 1 gives the empty list after one request, not an error, when
  it comes without a pagination block or with \<open>totalPages \<le> 1\<close>. Against a remote
  that serves 250 items in pages of 100 (with or without pagination metadata) the loop
  sends exactly the three queries for pages 1, 2, 3 and returns the 250 items in the
  remote's order.
\<close>

theorem getAllGroupsInWorkspace_pages:
  "(1 \<le> k \<and>
    (\<forall>p s. 1 \<le> p \<and> p \<le> k \<longrightarrow> get (page_query ws p) s = (ApiSuccess (d p) (mt p), nxt p s)) \<and>
    (\<forall>p. 1 \<le> p \<and> p < k \<longrightarrow> continues_spec p (d p) (mt p)) \<and>
    \<not> continues_spec k (d k) (mt k)
    \<longrightarrow> getAllGroupsInWorkspace (logged get) ws (s, []) =
          Some (Inr (concat (map d [1..<Suc k])),
                (fold nxt [1..<Suc k] s, map (page_query ws) [1..<Suc k])))
   \<and> (get1 (page_query ws1 1) t = (ApiSuccess [] mt1, t1) \<and>
        (\<forall>m pg. mt1 = Some m \<and> pagination m = Some pg \<longrightarrow> pg_totalPages pg \<le> 1)
        \<longrightarrow> getAllGroupsInWorkspace (logged get1) ws1 (t, []) =
              Some (Inr [], (t1, [page_query ws1 1])))
   \<and> (length (items :: Group list) = 250
        \<longrightarrow> getAllGroupsInWorkspace (logged (paged dl items wm)) ws (s', []) =
              Some (Inr items, (s', [page_query ws 1, page_query ws 2, page_query ws 3])))"
proof (intro conjI impI)
  assume a: "1 \<le> k \<and>
    (\<forall>p s. 1 \<le> p \<and> p \<le> k \<longrightarrow> get (page_query ws p) s = (ApiSuccess (d p) (mt p), nxt p s)) \<and>
    (\<forall>p. 1 \<le> p \<and> p < k \<longrightarrow> continues_spec p (d p) (mt p)) \<and>
    \<not> continues_spec k (d k) (mt k)"
  have "fetchGroupPages (logged get) ws 1 [] (s, []) =
          Some (Inr ([] @ concat (map d [1..<Suc k])),
                (fold nxt [1..<Suc k] s, [] @ map (page_query ws) [1..<Suc k]))"
    by (rule fetchGroupPages_run) (use a in auto)
  then show "getAllGroupsInWorkspace (logged get) ws (s, []) =
          Some (Inr (concat (map d [1..<Suc k])),
                (fold nxt [1..<Suc k] s, map (page_query ws) [1..<Suc k]))"
    by (simp add: getAllGroupsInWorkspace_def)
next
  assume e: "get1 (page_query ws1 1) t = (ApiSuccess [] mt1, t1) \<and>
        (\<forall>m pg. mt1 = Some m \<and> pagination m = Some pg \<longrightarrow> pg_totalPages pg \<le> 1)"
  then have "\<not> continues_spec 1 [] mt1"
    by (auto simp: continues_spec_def split: option.splits)
  with e show "getAllGroupsInWorkspace (logged get1) ws1 (t, []) =
              Some (Inr [], (t1, [page_query ws1 1]))"
    by (intro fetch_first_page_only) simp_all
next
  assume "length items = 250"
  then show "getAllGroupsInWorkspace (logged (paged dl items wm)) ws (s', []) =
      Some (Inr items, (s', [page_query ws 1, page_query ws 2, page_query ws 3]))"
    by (rule paged_250)
qed

theorem getAllGroupsInWorkspace_pages_witness:
  "getAllGroupsInWorkspace (logged (scripted [([group0], Some 2), ([group_late], Some 2)])) ''w'' ((), []) =
     Some (Inr [group0, group_late], ((), [page_query ''w'' 1, page_query ''w'' 2]))
   \<and> getAllGroupsInWorkspace (logged (scripted [(replicate 100 group0, Some 1), ([group_late], None)]))
        ''w'' ((), []) =
     Some (Inr (replicate 100 group0), ((), [page_query ''w'' 1]))
   \<and> getAllGroupsInWorkspace (logged (scripted [([], Some 1), ([group_late], None)])) ''w'' ((), []) =
     Some (Inr [], ((), [page_query ''w'' 1]))
   \<and> length (replicate 250 group0) = 250
   \<and> getAllGroupsInWorkspace (logged (paged 20 (replicate 250 group0) False)) ''w'' ((), []) =
        Some (Inr (replicate 250 group0),
              ((), [page_query ''w'' 1, page_query ''w'' 2, page_query ''w'' 3]))"
proof -
  let ?two = "scripted [([group0], Some 2), ([group_late], Some 2)] :: (unit, Group list) getter"
  let ?full = "scripted [(replicate 100 group0, Some 1), ([group_late], None)] :: (unit, Group list) getter"
  let ?none = "scripted [([], Some 1), ([group_late], None)] :: (unit, Group list) getter"
  let ?d2 = "\<lambda>p::nat. if p = 1 then [group0] else [group_late]"
  have two_ok: "\<forall>p s. 1 \<le> p \<and> p \<le> 2 \<longrightarrow>
                  ?two (page_query ''w'' p) s = (ApiSuccess (?d2 p) (Some (totalPagesMeta 2)), s)"
  proof (intro allI impI)
    fix p :: nat and s :: unit
    assume "1 \<le> p \<and> p \<le> 2"
    then have "p = 1 \<or> p = 2" by arith
    then show "?two (page_query ''w'' p) s = (ApiSuccess (?d2 p) (Some (totalPagesMeta 2)), s)"
      by (auto simp: scripted_page_query)
  qed
  have two_more: "\<forall>p. 1 \<le> p \<and> p < 2 \<longrightarrow> continues_spec p (?d2 p) (Some (totalPagesMeta 2))"
    by (simp add: continues_spec_def totalPagesMeta_def)
  have two_stop: "\<not> continues_spec 2 (?d2 2) (Some (totalPagesMeta 2))"
    by (simp add: continues_spec_def totalPagesMeta_def)
  have full_ok: "\<forall>p s. 1 \<le> p \<and> p \<le> 1 \<longrightarrow>
                  ?full (page_query ''w'' p) s = (ApiSuccess (replicate 100 group0) (Some (totalPagesMeta 1)), s)"
    by (auto simp: scripted_page_query)
  have full_more: "\<forall>p::nat. 1 \<le> p \<and> p < 1 \<longrightarrow>
                    continues_spec p (replicate 100 group0) (Some (totalPagesMeta 1))"
    by auto
  have full_stop: "\<not> continues_spec 1 (replicate 100 group0) (Some (totalPagesMeta 1))"
    by (simp add: continues_spec_def totalPagesMeta_def)
  have none_ok: "?none (page_query ''w'' 1) () = (ApiSuccess [] (Some (totalPagesMeta 1)), ())"
    by (simp add: scripted_page_query)
  have none_meta: "\<forall>m pg. Some (totalPagesMeta 1) = Some m \<and> pagination m = Some pg \<longrightarrow> pg_totalPages pg \<le> 1"
    by (auto simp: totalPagesMeta_def)
  have le12: "1 \<le> (2::nat)" and le11: "1 \<le> (1::nat)" by simp_all
  have r1: "getAllGroupsInWorkspace (logged ?two) ''w'' ((), []) =
              Some (Inr [group0, group_late], ((), [page_query ''w'' 1, page_query ''w'' 2]))"
  proof -
    have hyp: "1 \<le> (2::nat) \<and>
        (\<forall>p s. 1 \<le> p \<and> p \<le> 2 \<longrightarrow>
           ?two (page_query ''w'' p) s = (ApiSuccess (?d2 p) (Some (totalPagesMeta 2)), s)) \<and>
        (\<forall>p. 1 \<le> p \<and> p < 2 \<longrightarrow> continues_spec p (?d2 p) (Some (totalPagesMeta 2))) \<and>
        \<not> continues_spec 2 (?d2 2) (Some (totalPagesMeta 2))"
      using two_ok two_more two_stop le12 by blast
    from getAllGroupsInWorkspace_pages
           [where k = 2 and get = ?two and ws = "''w''" and d = ?d2
              and mt = "\<lambda>p. Some (totalPagesMeta 2)" and nxt = "\<lambda>p s. s" and s = "()",
            THEN conjunct1, THEN mp, OF hyp]
    show ?thesis
      unfolding upt_1_3 by simp
  qed
  have r2: "getAllGroupsInWorkspace (logged ?full) ''w'' ((), []) =
              Some (Inr (replicate 100 group0), ((), [page_query ''w'' 1]))"
  proof -
    have hyp: "1 \<le> (1::nat) \<and>
        (\<forall>p s. 1 \<le> p \<and> p \<le> 1 \<longrightarrow>
           ?full (page_query ''w'' p) s = (ApiSuccess (replicate 100 group0) (Some (totalPagesMeta 1)), s)) \<and>
        (\<forall>p. 1 \<le> p \<and> p < 1 \<longrightarrow> continues_spec p (replicate 100 group0) (Some (totalPagesMeta 1))) \<and>
        \<not> continues_spec 1 (replicate 100 group0) (Some (totalPagesMeta 1))"
      using full_ok full_more full_stop le11 by blast
    from getAllGroupsInWorkspace_pages
           [where k = 1 and get = ?full and ws = "''w''" and d = "\<lambda>p. replicate 100 group0"
              and mt = "\<lambda>p. Some (totalPagesMeta 1)" and nxt = "\<lambda>p s. s" and s = "()",
            THEN conjunct1, THEN mp, OF hyp]
    show ?thesis by simp
  qed
  have r3: "getAllGroupsInWorkspace (logged ?none) ''w'' ((), []) =
              Some (Inr [], ((), [page_query ''w'' 1]))"
  proof -
    have hyp: "?none (page_query ''w'' 1) () = (ApiSuccess [] (Some (totalPagesMeta 1)), ()) \<and>
        (\<forall>m pg. Some (totalPagesMeta 1) = Some m \<and> pagination m = Some pg \<longrightarrow> pg_totalPages pg \<le> 1)"
      using none_ok none_meta by blast
    from getAllGroupsInWorkspace_pages
           [where ?get1.0 = ?none and ?ws1.0 = "''w''" and t = "()"
              and ?mt1.0 = "Some (totalPagesMeta 1)" and ?t1.0 = "()",
            THEN conjunct2, THEN conjunct1, THEN mp, OF hyp]
    show ?thesis .
  qed
  have r4: "getAllGroupsInWorkspace (logged (paged 20 (replicate 250 group0) False)) ''w'' ((), []) =
        Some (Inr (replicate 250 group0),
              ((), [page_query ''w'' 1, page_query ''w'' 2, page_query ''w'' 3]))"
  proof -
    have hyp: "length (replicate 250 group0) = 250" by simp
    from getAllGroupsInWorkspace_pages
           [where items = "replicate 250 group0" and dl = 20 and wm = False and ws = "''w''" and s' = "()",
            THEN conjunct2, THEN conjunct2, THEN mp, OF hyp]
    show ?thesis .
  qed
  from r1 r2 r3 r4 show ?thesis by simp
qed

section \<open>The resource client\<close>

lemma taggedFailure_errorResponse: "taggedFailure (errorResponse c m)"
  by (simp add: taggedFailure_def errorResponse_def)

lemma taggedSuccess_successResponse: "taggedSuccess (successResponse d mt)"
  by (cases mt) (simp_all add: taggedSuccess_def successResponse_def)

text \<open>
  What \<open>request\<close> returns once the URL is built, case by case: it throws nothing; a
  rejected \<open>fetch\<close> gives the \<open>NETWORK_ERROR\<close> failure with the message of the error
  (or a fixed text); a non-2xx answer with no JSON body, or a falsy one, gives the
  \<open>HTTP_ERROR\<close> failure with the message \<open>HTTP <status>: <statusText>\<close>; a 2xx
  answer gives a success; and a non-2xx answer with a truthy JSON body gives that body,
  the only case in which the result can fail to be one of the two tagged variants.
\<close>

lemma request_cases:
  assumes "newURL platform (if startsWithSlash url then tl url else url)
             (if endsWithSlash (apiUrl config) then apiUrl config else apiUrl config @ ''/'') = Some fullUrl"
    and "fetch platform (fullUrl, searchParams (numberToString platform) params)
           \<lparr>ri_method = method, ri_headers = baseHeaders config,
            ri_body = (case data of None \<Rightarrow> None
                       | Some d \<Rightarrow> if truthy_json d then Some (stringify platform d) else None)\<rparr> s =
         (out, s1)"
  shows "\<exists>r. request platform config method url data params s = (Inr r, s1) \<and>
           (case out of
              Rejected err \<Rightarrow>
                r = errorResponse ''NETWORK_ERROR''
                      (case err of Some m \<Rightarrow> m | None \<Rightarrow> ''Network or server error occurred'')
            | Resolved response \<Rightarrow>
                if r_ok response then taggedSuccess r
                else (case r_json response of
                        None \<Rightarrow> r = errorResponse ''HTTP_ERROR''
                                       (''HTTP '' @ dec (r_status response) @ '': '' @ r_statusText response)
                      | Some body \<Rightarrow>
                          if truthy_json body then r = body
                          else r = errorResponse ''HTTP_ERROR''
                                     (''HTTP '' @ dec (r_status response) @ '': '' @ r_statusText response))) \<and>
           (taggedSuccess r \<or> taggedFailure r \<or>
            (\<exists>response. out = Resolved response \<and> \<not> r_ok response \<and> r_json response = Some r))"
  using assms
  by (cases out)
     (auto simp: request_def Let_def taggedFailure_errorResponse taggedSuccess_successResponse
       split: option.splits)

lemma request_cases_examples:
  "request (fixedPlatform (Rejected (Some ''fetch failed''))) sampleConfig ''GET'' ''/group'' None [] () =
     (Inr (errorResponse ''NETWORK_ERROR'' ''fetch failed''), ())
   \<and> request (fixedPlatform (Resolved \<lparr>r_ok = False, r_status = 503, r_statusText = ''Service Unavailable'',
                                        r_json = None\<rparr>))
       sampleConfig ''GET'' ''/group'' None [] () =
     (Inr (errorResponse ''HTTP_ERROR'' ''HTTP 503: Service Unavailable''), ())
   \<and> request (fixedPlatform (Resolved \<lparr>r_ok = False, r_status = 404, r_statusText = ''Not Found'',
                                        r_json = Some (errorResponse ''NOT_FOUND'' ''No such group'')\<rparr>))
       sampleConfig ''GET'' ''/group'' None [] () =
     (Inr (errorResponse ''NOT_FOUND'' ''No such group''), ())"
proof -
  have url: "newURL (fixedPlatform out) (if startsWithSlash ''/group'' then tl ''/group'' else ''/group'')
               (if endsWithSlash (apiUrl sampleConfig) then apiUrl sampleConfig
                else apiUrl sampleConfig @ ''/'') = Some ''https://sidvy.com/api/group''" for out
    by (simp add: fixedPlatform_def sampleConfig_def startsWithSlash_def endsWithSlash_def)
  have f: "fetch (fixedPlatform out)
             (''https://sidvy.com/api/group'', searchParams (numberToString (fixedPlatform out)) [])
             \<lparr>ri_method = ''GET'', ri_headers = baseHeaders sampleConfig,
              ri_body = (case None of None \<Rightarrow> None
                         | Some d \<Rightarrow> if truthy_json d then Some (stringify (fixedPlatform out) d) else None)\<rparr> () =
           (out, ())" for out
    by (simp add: fixedPlatform_def)
  have d503: "dec 503 = ''503''"
    by (simp add: dec.simps digit_def)
  from request_cases [OF url f, of "Rejected (Some ''fetch failed'')"]
       request_cases [OF url f, of "Resolved \<lparr>r_ok = False, r_status = 503,
                                r_statusText = ''Service Unavailable'', r_json = None\<rparr>"]
       request_cases [OF url f, of "Resolved \<lparr>r_ok = False, r_status = 404,
                                r_statusText = ''Not Found'',
                                r_json = Some (errorResponse ''NOT_FOUND'' ''No such group'')\<rparr>"]
  show ?thesis
    by (auto simp: d503 errorResponse_def)
qed

text \<open>
  C7. The claim: every request resolves to one of the two tagged variants. The branch
  for a non-2xx answer with a JSON body, commented "Return error response in our
  format", returns the parsed body as it is, with a type cast and no look at its shape:
  a 502 answer with the JSON body \<open>{"detail": "x"}\<close> comes back as that object,
  which has no \<open>success\<close> tag and is neither variant. (The two neighbouring branches
  build a tagged failure themselves: lemma \<open>request_cases\<close>.)
\<close>

theorem request_untagged_passthrough:
  "request (fixedPlatform (Resolved \<lparr>r_ok = False, r_status = 502, r_statusText = ''Bad Gateway'',
                                      r_json = Some (JObj [(''detail'', JStr ''x'')])\<rparr>))
     sampleConfig ''GET'' ''/group'' None [] () =
     (Inr (JObj [(''detail'', JStr ''x'')]), ())
   \<and> \<not> taggedSuccess (JObj [(''detail'', JStr ''x'')])
   \<and> \<not> taggedFailure (JObj [(''detail'', JStr ''x'')])"
  by (simp add: request_def fixedPlatform_def sampleConfig_def taggedSuccess_def taggedFailure_def
      Let_def)

section \<open>Creating a path: failures\<close>

lemma trace_fits_Cons:
  "trace_fits res tr \<Longrightarrow> trace_fits res ((c, None) # tr)"
  by (cases res) (auto simp: butlast_def split: list.split)

lemma createGroupPath_loop_trace:
  "createGroupPath_loop (traced_get get) (traced_post post) ws names created cur (s, tr0) = (res, (s', tr))
   \<Longrightarrow> \<exists>new. tr = tr0 @ new \<and> s' = replay get post (map fst new) s \<and> trace_fits res new"
proof (induction names arbitrary: created cur s tr0)
  case Nil
  then show ?case by auto
next
  case (Cons n rest)
  let ?q = "lookup_query ws cur"
  let ?e1 = "(ListCall ?q, outcome (fst (get ?q s)))"
  show ?case
  proof (cases "fst (get ?q s)")
    case (ApiError c m)
    with Cons.prems have "res = ApiError c m" "s' = snd (get ?q s)"
      "tr = tr0 @ [(ListCall ?q, Some (c, m))]"
      by (simp_all add: listGroups_lookup traced_get_apply)
    then show ?thesis
      by (intro exI [of _ "[(ListCall ?q, Some (c, m))]"]) simp
  next
    case (ApiSuccess d mt)
    show ?thesis
    proof (cases "find (\<lambda>g. g_name g = n) d")
      case (Some g)
      with ApiSuccess Cons.prems
      have "createGroupPath_loop (traced_get get) (traced_post post) ws rest (created @ [g])
              (Some (g_id g)) (snd (get ?q s), tr0 @ [?e1]) = (res, (s', tr))"
        by (simp add: listGroups_lookup traced_get_apply)
      from Cons.IH [OF this] obtain new where
        new: "tr = (tr0 @ [?e1]) @ new" "s' = replay get post (map fst new) (snd (get ?q s))"
             "trace_fits res new"
        by blast
      have "trace_fits res (?e1 # new)"
        using new(3) ApiSuccess by (simp add: trace_fits_Cons)
      with new show ?thesis
        by (intro exI [of _ "?e1 # new"]) simp
    next
      case None
      let ?r = "\<lparr>cg_name = n, cg_workspaceId = ws, cg_parentId = cur\<rparr>"
      let ?s1 = "snd (get ?q s)"
      let ?e2 = "(CreateCall ?r, outcome (fst (post ?r ?s1)))"
      show ?thesis
      proof (cases "fst (post ?r ?s1)")
        case (ApiError c m)
        with None ApiSuccess Cons.prems
        have "res = ApiError c m" "s' = snd (post ?r ?s1)"
          "tr = tr0 @ [(ListCall ?q, None), (CreateCall ?r, Some (c, m))]"
          by (simp_all add: listGroups_lookup traced_get_apply traced_post_apply createGroup_def)
        then show ?thesis
          by (intro exI [of _ "[(ListCall ?q, None), (CreateCall ?r, Some (c, m))]"]) simp
      next
        case inner: (ApiSuccess g mt2)
        with None ApiSuccess Cons.prems
        have "createGroupPath_loop (traced_get get) (traced_post post) ws rest (created @ [g])
                (Some (g_id g)) (snd (post ?r ?s1), tr0 @ [?e1, ?e2]) = (res, (s', tr))"
          by (simp add: listGroups_lookup traced_get_apply traced_post_apply createGroup_def)
        from Cons.IH [OF this] obtain new where
          new: "tr = (tr0 @ [?e1, ?e2]) @ new" "s' = replay get post (map fst new) (snd (post ?r ?s1))"
               "trace_fits res new"
          by blast
        have "trace_fits res (?e1 # ?e2 # new)"
          using new(3) ApiSuccess inner by (simp add: trace_fits_Cons)
        with new show ?thesis
          by (intro exI [of _ "?e1 # ?e2 # new"]) simp
      qed
    qed
  qed
qed

text \<open>
  C8. When a list or create call of \<open>createGroupPath\<close> fails, it is the last call
  made: every call before it succeeded and no step comes after it. The result is the
  error of that call, with the same code and message. And the remote is left in the
  state that the calls of the trace, lookups and creates only, produced one after the
  other: nothing undoes the groups created before the failure.
\<close>

theorem createGroupPath_aborts_on_failure:
  assumes "createGroupPath (traced_get get) (traced_post post) path ws (s, []) = (res, (s', tr))"
    and "\<not> list_all (\<lambda>e. snd e = None) tr"
  shows "tr \<noteq> [] \<and> list_all (\<lambda>e. snd e = None) (butlast tr)
         \<and> (\<exists>c m. snd (last tr) = Some (c, m) \<and> res = ApiError c m)
         \<and> s' = replay get post (map fst tr) s"
proof -
  from assms(1) obtain new where
    new: "tr = [] @ new" "s' = replay get post (map fst new) s" "trace_fits res new"
    unfolding createGroupPath_def
    using createGroupPath_loop_trace [of get post ws path "[]" None s "[]" res s' tr]
    by blast
  show ?thesis
  proof (cases res)
    case (ApiSuccess d mt)
    with new assms(2) show ?thesis by simp
  next
    case (ApiError c m)
    with new show ?thesis by simp
  qed
qed

theorem createGroupPath_aborts_on_failure_witness:
  "createGroupPath (traced_get (mem_get False)) (traced_post mem_post) [''A'', ''''] (Some ''w'') ([], []) =
     (ApiError ''VALIDATION_ERROR'' ''Name is required'',
      ([mkGroup ''g1'' ''A'' None],
       [(ListCall [(''workspaceId'', QStr ''w'')], None),
        (CreateCall \<lparr>cg_name = ''A'', cg_workspaceId = Some ''w'', cg_parentId = None\<rparr>, None),
        (ListCall [(''workspaceId'', QStr ''w''), (''parentId'', QStr ''g1'')], None),
        (CreateCall \<lparr>cg_name = '''', cg_workspaceId = Some ''w'', cg_parentId = Some ''g1''\<rparr>,
         Some (''VALIDATION_ERROR'', ''Name is required''))]))
   \<and> [mkGroup ''g1'' ''A'' None] =
       replay (mem_get False) mem_post
         [ListCall [(''workspaceId'', QStr ''w'')],
          CreateCall \<lparr>cg_name = ''A'', cg_workspaceId = Some ''w'', cg_parentId = None\<rparr>,
          ListCall [(''workspaceId'', QStr ''w''), (''parentId'', QStr ''g1'')],
          CreateCall \<lparr>cg_name = '''', cg_workspaceId = Some ''w'', cg_parentId = Some ''g1''\<rparr>] []"
proof -
  have run: "createGroupPath (traced_get (mem_get False)) (traced_post mem_post) [''A'', ''''] (Some ''w'') ([], []) =
     (ApiError ''VALIDATION_ERROR'' ''Name is required'',
      ([mkGroup ''g1'' ''A'' None],
       [(ListCall [(''workspaceId'', QStr ''w'')], None),
        (CreateCall \<lparr>cg_name = ''A'', cg_workspaceId = Some ''w'', cg_parentId = None\<rparr>, None),
        (ListCall [(''workspaceId'', QStr ''w''), (''parentId'', QStr ''g1'')], None),
        (CreateCall \<lparr>cg_name = '''', cg_workspaceId = Some ''w'', cg_parentId = Some ''g1''\<rparr>,
         Some (''VALIDATION_ERROR'', ''Name is required''))]))"
    by (simp add: mem_defs)
  have failed: "\<not> list_all (\<lambda>e. snd e = None)
       [(ListCall [(''workspaceId'', QStr ''w'')], None),
        (CreateCall \<lparr>cg_name = ''A'', cg_workspaceId = Some ''w'', cg_parentId = None\<rparr>, None),
        (ListCall [(''workspaceId'', QStr ''w''), (''parentId'', QStr ''g1'')], None),
        (CreateCall \<lparr>cg_name = '''', cg_workspaceId = Some ''w'', cg_parentId = Some ''g1''\<rparr>,
         Some (''VALIDATION_ERROR'', ''Name is required''))]"
    by simp
  from createGroupPath_aborts_on_failure [OF run failed] run show ?thesis
    by simp
qed

section \<open>Appending to a note\<close>

lemma appendToNote_found:
  assumes "get [(''limit'', QNum 100)] s = (ApiSuccess d mt, s1)"
    and "find (\<lambda>n. n_id n = noteId) d = Some cur"
  shows "appendToNote get put noteId extra None s =
           (case put \<lparr>un_id = noteId, un_name = None,
                      un_content = Some (n_content cur @ [newline, newline] @ extra),
                      un_groupId = None\<rparr> s1 of
              (ApiError c m, s2) \<Rightarrow> (ApiError c m, s2)
            | (ApiSuccess n mt2, s2) \<Rightarrow> (ApiSuccess (Some n) mt2, s2))"
  using assms
  by (simp add: appendToNote_def getNoteById_def listNotes_def qparam_def updateNote_def)

lemma appendToDailyNote_empty:
  "snd (appendToDailyNote (serve_note note0) (record_daily_put note0) ''x'' None None []) =
     [\<lparr>ud_content = ''x'', ud_workspaceId = None, ud_date = None\<rparr>]"
  by (simp add: appendToDailyNote_def getDailyNote_def truthy_def serve_note_def
      record_daily_put_def note0_def Let_def)

text \<open>
  C9. The claim: the separator is inserted only when the existing content is non-empty,
  and an empty note receives the appended content alone. The code of \<open>appendToNote\<close>
  inserts the separator unconditionally: appending \<open>x\<close> to the empty note \<open>n1\<close>
  sends an update whose content is two newlines followed by \<open>x\<close>, not \<open>x\<close>. (The
  sibling \<open>appendToDailyNote\<close> sends \<open>x\<close>: lemma \<open>appendToDailyNote_empty\<close>.)
\<close>

theorem appendToNote_empty_note_gets_separator:
  "snd (appendToNote (serve_notes [note0]) (record_put note0) ''n1'' ''x'' None []) =
     [\<lparr>un_id = ''n1'', un_name = None, un_content = Some [newline, newline, CHR ''x''],
       un_groupId = None\<rparr>]
   \<and> [newline, newline, CHR ''x''] \<noteq> ''x''"
  by (simp add: appendToNote_def getNoteById_def listNotes_def qparam_def updateNote_def
      serve_notes_def record_put_def note0_def Let_def newline_def)

end
